theory Spec2Isabelle
  imports Main "HOL-Library.Char_ord" "HOL-Library.List_Lexorder"
begin

section \<open>Rerunning failed tests (cmd/rerunfails.go)\<close>

text \<open>
  A shallow embedding of \<^verbatim>\<open>cmd/rerunfails.go\<close>. Go strings are byte strings and
  are modelled by \<^typ>\<open>string\<close>; a Go \<^verbatim>\<open>error\<close> value that may be nil is an
  \<open>error option\<close>.
\<close>

subsection \<open>Go library functions used by the run-flag builder\<close>

text \<open>
  \<^verbatim>\<open>regexp.QuoteMeta\<close> of the Go standard library puts a backslash in front of each
  of the bytes \<^verbatim>\<open>\.+*?()|[]{}^$\<close> and copies every other byte.
\<close>

definition backslash :: char where
  "backslash = CHR 0x5C"

definition specialBytes :: "char list" where
  "specialBytes = backslash # ''.+*?()|[]{}^$''"

definition special :: "char \<Rightarrow> bool" where
  "special b = (b \<in> set specialBytes)"

fun QuoteMeta :: "string \<Rightarrow> string" where
  "QuoteMeta [] = []"
| "QuoteMeta (b # s) = (if special b then backslash # b # QuoteMeta s else b # QuoteMeta s)"

text \<open>
  \<^verbatim>\<open>strings.Split(s, "/")\<close>: the pieces of \<open>s\<close> between the separators; a string
  with \<open>n\<close> separators has \<open>n + 1\<close> pieces, of which some may be empty.
\<close>

fun Split_slash :: "string \<Rightarrow> string list" where
  "Split_slash [] = [[]]"
| "Split_slash (c # s) =
     (if c = CHR ''/'' then [] # Split_slash s
      else (case Split_slash s of p # ps \<Rightarrow> (c # p) # ps | [] \<Rightarrow> [[c]]))"

subsection \<open>Test names\<close>

type_synonym TestName = string

text \<open>
  Modelled from the spec: \<^verbatim>\<open>testjson.TestName\<close> and its methods \<^verbatim>\<open>IsSubTest\<close> and
  \<^verbatim>\<open>Name\<close> are not in the source file. A test name is a string; it is a subtest
  iff it contains the separator \<^verbatim>\<open>/\<close>, and its name is the string itself.
\<close>

definition IsSubTest :: "TestName \<Rightarrow> bool" where
  "IsSubTest n = (CHR ''/'' \<in> set n)"

definition Name :: "TestName \<Rightarrow> string" where
  "Name n = n"

subsection \<open>The run-flag builder\<close>

text \<open>
  The loop of \<^verbatim>\<open>goTestRunFlagForTestCase\<close> over the parts: \<open>i\<close> is the index of the
  next part and \<open>sb\<close> the contents of the string builder.
\<close>

fun runFlag_parts :: "nat \<Rightarrow> string list \<Rightarrow> string \<Rightarrow> string" where
  "runFlag_parts i [] sb = sb"
| "runFlag_parts i (p # parts) sb =
     runFlag_parts (i + 1) parts
       ((if i > 0 then sb @ ''/'' else sb) @ ''^'' @ QuoteMeta p @ ''$'')"

definition goTestRunFlagForTestCase :: "TestName \<Rightarrow> string" where
  "goTestRunFlagForTestCase test =
     (if IsSubTest test then runFlag_parts 0 (Split_slash test) ''-test.run=''
      else ''-test.run=^'' @ QuoteMeta (Name test) @ ''$'')"

subsection \<open>Errors\<close>

text \<open>
  \<open>ExitError c m\<close> is what \<^verbatim>\<open>cmd.Wait\<close> returns for a process that exited with
  code \<open>c\<close> (\<open>m\<close> is its text), \<open>Errorf m\<close> an error made by \<^verbatim>\<open>fmt.Errorf\<close> or
  by a library, and \<open>Panic m\<close> a Go run-time panic, which unwinds through every
  caller just as an error that each caller returns at once.
\<close>

datatype error = ExitError int string | Errorf string | Panic string

fun Error :: "error \<Rightarrow> string" where
  "Error (ExitError c m) = m"
| "Error (Errorf m) = m"
| "Error (Panic m) = m"

text \<open>The verb \<^verbatim>\<open>%v\<close> of \<^verbatim>\<open>fmt\<close> applied to an error value.\<close>

fun fmt_v :: "error option \<Rightarrow> string" where
  "fmt_v None = ''<nil>''"
| "fmt_v (Some e) = Error e"

text \<open>
  Modelled from the spec: \<^verbatim>\<open>ExitCodeWithDefault\<close> belongs to the \<^verbatim>\<open>cmd\<close> package but
  is not in the source file. The spec calls its result the normalized exit code, with
  nil normalized to 0; an exit error gives its code. The spec says nothing about an
  error that carries no exit code: it is given 127 here.
\<close>

fun ExitCodeWithDefault :: "error option \<Rightarrow> int" where
  "ExitCodeWithDefault None = 0"
| "ExitCodeWithDefault (Some (ExitError c m)) = c"
| "ExitCodeWithDefault (Some e) = 127"

text \<open>The verb \<^verbatim>\<open>%d\<close> of \<^verbatim>\<open>fmt\<close>.\<close>

definition digit :: "nat \<Rightarrow> char" where
  "digit d = char_of (48 + d)"

function decimal :: "nat \<Rightarrow> string" where
  "decimal n = (if n < 10 then [digit n] else decimal (n div 10) @ [digit (n mod 10)])"
  by pat_completeness auto
termination
  by (relation "measure id") auto

declare decimal.simps [simp del]

definition fmt_d :: "int \<Rightarrow> string" where
  "fmt_d i = (if i < 0 then ''-'' @ decimal (nat (- i)) else decimal (nat i))"

subsection \<open>The execution and its events (package testjson)\<close>

text \<open>
  The package \<^verbatim>\<open>testjson\<close> is not in the source file. Of a test case the source
  reads the fields \<^verbatim>\<open>Package\<close> and \<^verbatim>\<open>Test\<close>; of an event the fields \<^verbatim>\<open>Action\<close>,
  \<^verbatim>\<open>Package\<close> and \<^verbatim>\<open>Test\<close> and the result of the method \<^verbatim>\<open>PackageEvent()\<close>, kept
  here as a field; of a package the slices \<^verbatim>\<open>Failed\<close> and \<^verbatim>\<open>Passed\<close>; of an
  execution the results of the methods \<^verbatim>\<open>Failed()\<close>, \<^verbatim>\<open>Package(name)\<close>,
  \<^verbatim>\<open>Errors()\<close> and \<^verbatim>\<open>HasPanic()\<close>, kept here as fields.
\<close>

record TestCase =
  Package :: string
  Test :: TestName

record TestEvent =
  Action :: string
  ev_Package :: string
  ev_Test :: TestName
  PackageEvent :: bool

text \<open>Modelled from the spec: the action of a failing test is the string \<^verbatim>\<open>fail\<close>.\<close>

definition ActionFail :: string where
  "ActionFail = ''fail''"

record PackageView =
  Failed :: "TestCase list"
  Passed :: "TestCase list"

record Execution =
  exec_Failed :: "TestCase list"
  exec_Package :: "string \<Rightarrow> PackageView"
  Errors :: "string list"
  HasPanic :: bool

text \<open>
  Modelled from the spec: \<^verbatim>\<open>Package.LastFailedByName\<close> is not in the source file. It
  looks up the last failed test case of that name in the package; without one it
  gives the zero test case.
\<close>

definition LastFailedByName :: "PackageView \<Rightarrow> string \<Rightarrow> TestCase" where
  "LastFailedByName p name =
     (case filter (\<lambda>tc. Name (Test tc) = name) (rev (Failed p)) of
        [] \<Rightarrow> \<lparr>Package = [], Test = []\<rparr>
      | tc # _ \<Rightarrow> tc)"

subsection \<open>The outcome classifier\<close>

definition hasErrors :: "error option \<Rightarrow> Execution \<Rightarrow> error option" where
  "hasErrors err exec =
     (if length (Errors exec) > 0 then
        Some (Errorf ''rerun aborted because previous run had errors'')
      else if ExitCodeWithDefault err > 1 then
        Some (Errorf (''unexpected go test exit code: '' @ fmt_v err))
      else if HasPanic exec then
        Some (Errorf (''rerun aborted because previous run had a suspected panic'' @
                      '' and some test may not have run''))
      else None)"

subsection \<open>The failure recorder\<close>

text \<open>
  An event handler is a function of the event, the execution and the state \<open>'h\<close> of the
  consumer; it returns its error and the consumer's new state. The embedded handler
  of a recorder is nil when the recorder is made from an execution.
\<close>

type_synonym 'h EventHandler = "TestEvent \<Rightarrow> Execution \<Rightarrow> 'h \<Rightarrow> error option \<times> 'h"

record 'h failureRecorder =
  EventHandler :: "'h EventHandler option"
  failures :: "TestCase list"
  lastErr :: "error option"

definition newFailureRecorder :: "'h EventHandler \<Rightarrow> 'h failureRecorder" where
  "newFailureRecorder handler = \<lparr>EventHandler = Some handler, failures = [], lastErr = None\<rparr>"

definition newFailureRecorderFromExecution :: "Execution \<Rightarrow> 'h failureRecorder" where
  "newFailureRecorderFromExecution exec =
     \<lparr>EventHandler = None, failures = exec_Failed exec, lastErr = None\<rparr>"

definition Event ::
  "'h failureRecorder \<Rightarrow> TestEvent \<Rightarrow> Execution \<Rightarrow> 'h \<Rightarrow> error option \<times> 'h failureRecorder \<times> 'h"
where
  "Event r event execution hs =
     (let r' = (if \<not> PackageEvent event \<and> Action event = ActionFail then
                  (let pkg = exec_Package execution (ev_Package event);
                       tc = LastFailedByName pkg (ev_Test event)
                   in r\<lparr>failures := failures r @ [tc]\<rparr>)
                else r)
      in case EventHandler r' of
           None \<Rightarrow> (Some (Panic ''nil pointer dereference''), r', hs)
         | Some h \<Rightarrow> (case h event execution hs of (e, hs') \<Rightarrow> (e, r', hs')))"

definition count :: "'h failureRecorder \<Rightarrow> int" where
  "count r = int (length (failures r))"

subsection \<open>Options of one rerun\<close>

record rerunOpts =
  runFlag :: string
  pkg :: string
  coverprofileFlag :: string

definition Args :: "rerunOpts \<Rightarrow> string list" where
  "Args opt =
     (let result = [];
          result = (if runFlag opt \<noteq> [] then result @ [runFlag opt] else result);
          result = (if pkg opt \<noteq> [] then result @ [pkg opt] else result);
          result = (if coverprofileFlag opt \<noteq> [] then result @ [coverprofileFlag opt] else result)
      in result)"

definition withCoverprofile :: "rerunOpts \<Rightarrow> string \<Rightarrow> rerunOpts" where
  "withCoverprofile opt coverprofile = opt\<lparr>coverprofileFlag := ''-coverprofile='' @ coverprofile\<rparr>"

definition newRerunOptsFromTestCase :: "TestCase \<Rightarrow> rerunOpts" where
  "newRerunOptsFromTestCase tc =
     \<lparr>runFlag = goTestRunFlagForTestCase (Test tc), pkg = Package tc, coverprofileFlag = []\<rparr>"

text \<open>The fields of \<^verbatim>\<open>options\<close> that the source file reads.\<close>

record options =
  args :: "string list"
  rerunFailsMaxAttempts :: int
  rerunFailsRunRootCases :: bool
  rerunFailsReportFile :: string

type_synonym testCaseFilter = "TestCase list \<Rightarrow> TestCase list"

text \<open>
  \<^verbatim>\<open>testjson.FilterFailedUnique\<close> is not in the source file; it is the parameter
  \<open>FilterFailedUnique\<close>.
\<close>

definition rerunFailsFilter :: "testCaseFilter \<Rightarrow> options \<Rightarrow> testCaseFilter" where
  "rerunFailsFilter FilterFailedUnique opt =
     (if rerunFailsRunRootCases opt then filter (\<lambda>tc. \<not> IsSubTest (Test tc))
      else FilterFailedUnique)"

subsection \<open>Coverage profiles\<close>

text \<open>
  A block of a coverage profile, with the file it belongs to, and its key. A profile
  is a sequence of blocks; a coverage file holds the profiles that
  \<^verbatim>\<open>cover.ParseProfiles\<close> reads from it.
\<close>

record Block =
  File :: string
  StartLine :: int
  StartCol :: int
  EndLine :: int
  EndCol :: int
  NumStmt :: int
  Count :: int

type_synonym Profile = "Block list"

type_synonym BlockKey = "string \<times> int \<times> int \<times> int \<times> int"

definition key :: "Block \<Rightarrow> BlockKey" where
  "key b = (File b, StartLine b, StartCol b, EndLine b, EndCol b)"

text \<open>
  Modelled from the spec: \<^verbatim>\<open>coverprofile.Combine\<close> is not in the source file. The
  merged profile is the union of the blocks of the original profile and of every
  partial profile, by key; the count of a key that occurs several times is the sum of
  the counts, and a block whose key occurs once passes through. The result is written
  to the path of the original coverage file, replacing it; a coverage file that
  cannot be read is an error.
\<close>

fun add_block :: "Block \<Rightarrow> Block list \<Rightarrow> Block list" where
  "add_block b [] = [b]"
| "add_block b (c # cs) =
     (if key c = key b then c\<lparr>Count := Count c + Count b\<rparr> # cs else c # add_block b cs)"

definition merge_blocks :: "Block list \<Rightarrow> Block list" where
  "merge_blocks bs = foldl (\<lambda>acc b. add_block b acc) [] bs"

type_synonym files = "string \<Rightarrow> Profile list option"

definition Combine :: "string \<Rightarrow> Profile list \<Rightarrow> files \<Rightarrow> error + files" where
  "Combine mainProfilePath rerunProfiles fs =
     (case fs mainProfilePath of
        None \<Rightarrow> Inl (Errorf (''open '' @ mainProfilePath @ '': no such file or directory''))
      | Some original \<Rightarrow>
          Inr (fs(mainProfilePath \<mapsto> [merge_blocks (concat original @ concat rerunProfiles)])))"

text \<open>\<^verbatim>\<open>cover.ParseProfiles\<close> and \<^verbatim>\<open>os.Remove\<close> on the coverage files.\<close>

definition ParseProfiles :: "string \<Rightarrow> files \<Rightarrow> error + Profile list" where
  "ParseProfiles fileName fs =
     (case fs fileName of
        None \<Rightarrow> Inl (Errorf (''open '' @ fileName @ '': no such file or directory''))
      | Some ps \<Rightarrow> Inr ps)"

text \<open>
  The removal of an existing file can fail for a reason outside the program
  (\<open>denied\<close>, given by the environment).
\<close>

definition Remove :: "error option \<Rightarrow> string \<Rightarrow> files \<Rightarrow> error option \<times> files" where
  "Remove denied name fs =
     (case fs name of
        None \<Rightarrow> (Some (Errorf (''remove '' @ name @ '': no such file or directory'')), fs)
      | Some ps \<Rightarrow> (case denied of Some e \<Rightarrow> (Some e, fs) | None \<Rightarrow> (None, fs(name := None))))"

subsection \<open>The environment of a session\<close>

text \<open>
  What one \<^verbatim>\<open>go test\<close> process does, as the session sees it: the events decoded from
  its output, the error of the scan, the error of \<^verbatim>\<open>cmd.Wait\<close>, the profiles it has
  written to the file of its \<^verbatim>\<open>-coverprofile\<close> flag when it exits (none when the file
  is not written), and the error, if any, that keeps this file from being removed.
\<close>

record goTestProc =
  events :: "TestEvent list"
  scanErr :: "error option"
  waitErr :: "error option"
  coverOut :: "Profile list option"
  removeDenied :: "error option"

text \<open>
  The collaborators of \<^verbatim>\<open>rerunFailed\<close> that are not in the source file are
  parameters: the handler of the scan configuration, the way the scanner adds an event
  to the execution, \<^verbatim>\<open>testjson.FilterFailedUnique\<close>, \<^verbatim>\<open>coverprofile.ParseCoverProfile\<close>,
  \<^verbatim>\<open>goTestCmdArgs\<close>, \<^verbatim>\<open>testjson.PrintSummary\<close> (the text it prints) and
  \<^verbatim>\<open>startGoTestFn\<close>, whose answer is given for each attempt and each index in the
  round.
\<close>

record 'h Env =
  Handler :: "'h EventHandler"
  add :: "TestEvent \<Rightarrow> Execution \<Rightarrow> Execution"
  FilterFailedUnique :: testCaseFilter
  ParseCoverProfile :: "string list \<Rightarrow> bool \<times> string"
  goTestCmdArgs :: "options \<Rightarrow> rerunOpts \<Rightarrow> string list"
  PrintSummary :: "Execution \<Rightarrow> string"
  startGoTestFn :: "nat \<Rightarrow> nat \<Rightarrow> string list \<Rightarrow> error + goTestProc"

text \<open>
  The state that a session changes: the shared execution, the state of the consumer
  behind the handler, the coverage files, what has been written to \<^verbatim>\<open>opts.stdout\<close>,
  and the calls of \<^verbatim>\<open>startGoTestFn\<close> so far (attempt, index in the round, arguments).
\<close>

record 'h State =
  execution :: Execution
  consumer :: 'h
  fsys :: files
  stdout :: "string list"
  started :: "(nat \<times> nat \<times> string list) list"

text \<open>
  Modelled from the spec: \<^verbatim>\<open>testjson.ScanTestOutput\<close> is not in the source file. It
  decodes a sequence of events, adds each to the shared execution and calls the
  handler once for each; an error of the handler ends the scan.
\<close>

fun ScanTestOutput ::
  "(TestEvent \<Rightarrow> Execution \<Rightarrow> Execution) \<Rightarrow> TestEvent list \<Rightarrow> error option \<Rightarrow>
   'h failureRecorder \<Rightarrow> Execution \<Rightarrow> 'h \<Rightarrow> error option \<times> 'h failureRecorder \<times> Execution \<times> 'h"
where
  "ScanTestOutput addf [] serr r ex hs = (serr, r, ex, hs)"
| "ScanTestOutput addf (ev # evs) serr r ex hs =
     (let ex' = addf ev ex in
      case Event r ev ex' hs of
        (e, r', hs') \<Rightarrow>
          (case e of
             Some err \<Rightarrow> (Some err, r', ex', hs')
           | None \<Rightarrow> ScanTestOutput addf evs serr r' ex' hs'))"

subsection \<open>The rerun loop\<close>

text \<open>
  Lines 115 to 130 of \<^verbatim>\<open>rerunFailed\<close>: the profile of the rerun is parsed, appended
  to the profiles in memory, and its file is removed. The process has written the
  file by the time \<^verbatim>\<open>cmd.Wait\<close> returns.
\<close>

definition collect_coverprofile ::
  "goTestProc \<Rightarrow> string \<Rightarrow> Profile list \<Rightarrow> 'h State \<Rightarrow>
   (error \<times> 'h State) + (Profile list \<times> 'h State)"
where
  "collect_coverprofile goTestProc rerunProfilePath rerunProfiles st =
     (let st = st\<lparr>fsys := (case coverOut goTestProc of
                              None \<Rightarrow> fsys st
                            | Some ps \<Rightarrow> (fsys st)(rerunProfilePath \<mapsto> ps))\<rparr>
      in case ParseProfiles rerunProfilePath (fsys st) of
           Inl err \<Rightarrow>
             Inl (Errorf (''failed to parse coverprofile '' @ rerunProfilePath @ '': '' @
                          Error err), st)
         | Inr rerunProfile \<Rightarrow>
             (let rerunProfiles = rerunProfiles @ rerunProfile in
              case Remove (removeDenied goTestProc) rerunProfilePath (fsys st) of
                (rmErr, fs) \<Rightarrow>
                  (case rmErr of
                     Some err \<Rightarrow>
                       Inl (Errorf (''failed to remove coverprofile '' @ rerunProfilePath @
                                    '' after combined with the main profile: '' @ Error err), st)
                   | None \<Rightarrow> Inr (rerunProfiles, st\<lparr>fsys := fs\<rparr>))))"

text \<open>
  The body of the inner loop, for the test case \<open>tc\<close> at index \<open>i\<close>. The run id, the
  streams and the stop function of the scan configuration are left out; the working
  directory of the process is empty.
\<close>

definition rerun_case ::
  "'h Env \<Rightarrow> options \<Rightarrow> bool \<Rightarrow> string \<Rightarrow> nat \<Rightarrow> nat \<Rightarrow> TestCase \<Rightarrow>
   'h failureRecorder \<Rightarrow> Profile list \<Rightarrow> 'h State \<Rightarrow>
   (error \<times> 'h State) + ('h failureRecorder \<times> Profile list \<times> 'h State)"
where
  "rerun_case E opts isCoverprofile mainProfilePath attempts i tc nextRec rerunProfiles st =
     (let ro = newRerunOptsFromTestCase tc;
          rerunProfilePath =
            (if isCoverprofile then mainProfilePath @ ''.'' @ decimal attempts @ ''.'' @ decimal i
             else []);
          ro = (if isCoverprofile then withCoverprofile ro rerunProfilePath else ro);
          cmdArgs = goTestCmdArgs E opts ro;
          st = st\<lparr>started := started st @ [(attempts, i, cmdArgs)]\<rparr>
      in case startGoTestFn E attempts i cmdArgs of
           Inl err \<Rightarrow> Inl (err, st)
         | Inr goTestProc \<Rightarrow>
             (case ScanTestOutput (add E) (events goTestProc) (scanErr goTestProc) nextRec
                     (execution st) (consumer st) of
                (serr, nextRec, ex, hs) \<Rightarrow>
                  (let st = st\<lparr>execution := ex, consumer := hs\<rparr> in
                   case serr of
                     Some err \<Rightarrow> Inl (err, st)
                   | None \<Rightarrow>
                       (let exitErr = waitErr goTestProc;
                            nextRec = (if exitErr \<noteq> None then nextRec\<lparr>lastErr := exitErr\<rparr>
                                       else nextRec)
                        in case (if isCoverprofile
                                 then collect_coverprofile goTestProc rerunProfilePath rerunProfiles st
                                 else Inr (rerunProfiles, st)) of
                             Inl e \<Rightarrow> Inl e
                           | Inr (rerunProfiles, st) \<Rightarrow>
                               (case hasErrors exitErr (execution st) of
                                  Some err \<Rightarrow> Inl (err, st)
                                | None \<Rightarrow> Inr (nextRec, rerunProfiles, st))))))"

text \<open>The inner loop over the filtered failures, from index \<open>i\<close> on.\<close>

fun rerun_cases ::
  "'h Env \<Rightarrow> options \<Rightarrow> bool \<Rightarrow> string \<Rightarrow> nat \<Rightarrow> nat \<Rightarrow> TestCase list \<Rightarrow>
   'h failureRecorder \<Rightarrow> Profile list \<Rightarrow> 'h State \<Rightarrow>
   (error \<times> 'h State) + ('h failureRecorder \<times> Profile list \<times> 'h State)"
where
  "rerun_cases E opts isCov main attempts i [] nextRec rerunProfiles st =
     Inr (nextRec, rerunProfiles, st)"
| "rerun_cases E opts isCov main attempts i (tc # tcs) nextRec rerunProfiles st =
     (case rerun_case E opts isCov main attempts i tc nextRec rerunProfiles st of
        Inl e \<Rightarrow> Inl e
      | Inr (nextRec, rerunProfiles, st) \<Rightarrow>
          rerun_cases E opts isCov main attempts (i + 1) tcs nextRec rerunProfiles st)"

text \<open>
  The outer loop. It returns a fatal error, or the values of \<^verbatim>\<open>attempts\<close>, \<^verbatim>\<open>rec\<close>
  and \<^verbatim>\<open>rerunProfiles\<close> when the loop is left.
\<close>

function rerun_loop ::
  "'h Env \<Rightarrow> options \<Rightarrow> testCaseFilter \<Rightarrow> bool \<Rightarrow> string \<Rightarrow> nat \<Rightarrow>
   'h failureRecorder \<Rightarrow> Profile list \<Rightarrow> 'h State \<Rightarrow>
   (error \<times> 'h State) + (nat \<times> 'h failureRecorder \<times> Profile list \<times> 'h State)"
where
  "rerun_loop E opts tcFilter isCov main attempts rec rerunProfiles st =
     (if count rec > 0 \<and> int attempts < rerunFailsMaxAttempts opts then
        (let st = st\<lparr>stdout := stdout st @ [PrintSummary E (execution st), [CHR 0x0A]]\<rparr>;
             nextRec = newFailureRecorder (Handler E)
         in case rerun_cases E opts isCov main attempts 0 (tcFilter (failures rec))
                   nextRec rerunProfiles st of
              Inl e \<Rightarrow> Inl e
            | Inr (nextRec, rerunProfiles, st) \<Rightarrow>
                rerun_loop E opts tcFilter isCov main (attempts + 1) nextRec rerunProfiles st)
      else Inr (attempts, rec, rerunProfiles, st))"
  by pat_completeness auto
termination
  by (relation "measure (\<lambda>(E, opts, tcFilter, isCov, main, attempts, rec, rerunProfiles, st).
                  nat (rerunFailsMaxAttempts opts - int attempts))") auto

declare rerun_loop.simps [simp del]

text \<open>
  \<^verbatim>\<open>rerunFailed\<close> returns its error; the model returns the state it leaves as well.
  The context and its cancellation are left out.
\<close>

definition rerunFailed :: "'h Env \<Rightarrow> options \<Rightarrow> 'h State \<Rightarrow> error option \<times> 'h State" where
  "rerunFailed E opts st =
     (let tcFilter = rerunFailsFilter (FilterFailedUnique E) opts in
      case ParseCoverProfile E (args opts) of
        (isCoverprofile, mainProfilePath) \<Rightarrow>
          (let rerunProfiles = [];
               rec = newFailureRecorderFromExecution (execution st)
           in case rerun_loop E opts tcFilter isCoverprofile mainProfilePath 0 rec rerunProfiles st of
                Inl (err, st) \<Rightarrow> (Some err, st)
              | Inr (attempts, rec, rerunProfiles, st) \<Rightarrow>
                  (if isCoverprofile then
                     (case Combine mainProfilePath rerunProfiles (fsys st) of
                        Inl err \<Rightarrow>
                          (Some (Errorf (''failed to combine coverprofiles: '' @ Error err)), st)
                      | Inr fs \<Rightarrow> (lastErr rec, st\<lparr>fsys := fs\<rparr>))
                   else (lastErr rec, st))))"

subsection \<open>The report of the reruns\<close>

record testCaseCounts =
  total :: int
  failed :: int

text \<open>The loops over \<^verbatim>\<open>pkg.Failed\<close> and over \<^verbatim>\<open>pkg.Passed\<close>.\<close>

fun count_failed :: "TestCase list \<Rightarrow> TestName \<Rightarrow> testCaseCounts \<Rightarrow> testCaseCounts" where
  "count_failed [] t counts = counts"
| "count_failed (tc # tcs) t counts =
     count_failed tcs t
       (if Test tc = t then counts\<lparr>total := total counts + 1, failed := failed counts + 1\<rparr>
        else counts)"

fun count_passed :: "TestCase list \<Rightarrow> TestName \<Rightarrow> testCaseCounts \<Rightarrow> testCaseCounts" where
  "count_passed [] t counts = counts"
| "count_passed (tc # tcs) t counts =
     count_passed tcs t (if Test tc = t then counts\<lparr>total := total counts + 1\<rparr> else counts)"

text \<open>The counts of one failure (lines 230 to 243).\<close>

definition tally :: "Execution \<Rightarrow> TestCase \<Rightarrow> testCaseCounts" where
  "tally exec failure =
     (let pkg = exec_Package exec (Package failure);
          counts = \<lparr>total = 0, failed = 0\<rparr>;
          counts = count_failed (Failed pkg) (Test failure) counts;
          counts = count_passed (Passed pkg) (Test failure) counts
      in counts)"

definition report_name :: "TestCase \<Rightarrow> string" where
  "report_name failure = Package failure @ ''.'' @ Name (Test failure)"

text \<open>The loop over \<^verbatim>\<open>exec.Failed()\<close>, with the slice \<open>names\<close> and the map \<open>results\<close>.\<close>

fun report_failures ::
  "Execution \<Rightarrow> TestCase list \<Rightarrow> string list \<Rightarrow> (string \<rightharpoonup> testCaseCounts) \<Rightarrow>
   string list \<times> (string \<rightharpoonup> testCaseCounts)"
where
  "report_failures exec [] names results = (names, results)"
| "report_failures exec (failure # rest) names results =
     (let name = report_name failure in
      if results name \<noteq> None then report_failures exec rest names results
      else report_failures exec rest (names @ [name]) (results(name \<mapsto> tally exec failure)))"

text \<open>A read of the map: a missing key gives the zero value.\<close>

definition lookup_counts :: "(string \<rightharpoonup> testCaseCounts) \<Rightarrow> string \<Rightarrow> testCaseCounts" where
  "lookup_counts results name =
     (case results name of None \<Rightarrow> \<lparr>total = 0, failed = 0\<rparr> | Some counts \<Rightarrow> counts)"

text \<open>One line of the report, as \<^verbatim>\<open>fmt.Fprintf\<close> writes it.\<close>

definition report_line :: "string \<Rightarrow> testCaseCounts \<Rightarrow> string" where
  "report_line name counts =
     name @ '': '' @ fmt_d (total counts) @ '' runs, '' @ fmt_d (failed counts) @
     '' failures'' @ [CHR 0x0A]"

text \<open>
  \<^verbatim>\<open>writeRerunFailsReport\<close>. The report files are a map from paths to the lines
  written; \<open>createErr\<close> is the error of \<^verbatim>\<open>os.Create\<close>, given by the environment.
  \<^verbatim>\<open>sort.Strings\<close> sorts by bytes.
\<close>

definition writeRerunFailsReport ::
  "error option \<Rightarrow> options \<Rightarrow> Execution \<Rightarrow> (string \<rightharpoonup> string list) \<Rightarrow>
   error option \<times> (string \<rightharpoonup> string list)"
where
  "writeRerunFailsReport createErr opts exec out =
     (if rerunFailsMaxAttempts opts = 0 \<or> rerunFailsReportFile opts = [] then (None, out)
      else
        (case report_failures exec (exec_Failed exec) [] Map.empty of
           (names, results) \<Rightarrow>
             (case createErr of
                Some err \<Rightarrow> (Some err, out)
              | None \<Rightarrow>
                  (let names = sort names in
                   (None, out(rerunFailsReportFile opts \<mapsto>
                                map (\<lambda>name. report_line name (lookup_counts results name)) names))))))"

subsection \<open>Notions used to state the properties\<close>

text \<open>A path segment between its anchors, and segments joined by the separator.\<close>

definition anchored :: "string \<Rightarrow> string" where
  "anchored p = ''^'' @ QuoteMeta p @ ''$''"

fun join_slash :: "string list \<Rightarrow> string" where
  "join_slash [] = []"
| "join_slash [p] = p"
| "join_slash (p # q # ps) = p @ ''/'' @ join_slash (q # ps)"

text \<open>
  The string that a regular expression matches when it is made of literals only: a
  byte that is not special stands for itself, a backslash followed by a special byte
  stands for that byte, and anything else is not a literal.
\<close>

fun literal_of :: "string \<Rightarrow> string option" where
  "literal_of [] = Some []"
| "literal_of (c # s) =
     (if c = backslash then
        (case s of
           [] \<Rightarrow> None
         | d # s' \<Rightarrow> if special d then map_option ((#) d) (literal_of s') else None)
      else if special c then None
      else map_option ((#) c) (literal_of s))"

text \<open>The sum of the counts of the blocks of a key.\<close>

definition count_of :: "BlockKey \<Rightarrow> Block list \<Rightarrow> int" where
  "count_of k bs = sum_list (map Count (filter (\<lambda>b. key b = k) bs))"

text \<open>The names and the counts that \<^verbatim>\<open>writeRerunFailsReport\<close> collects for an execution.\<close>

definition report_names :: "Execution \<Rightarrow> string list" where
  "report_names exec = fst (report_failures exec (exec_Failed exec) [] Map.empty)"

definition report_results :: "Execution \<Rightarrow> (string \<rightharpoonup> testCaseCounts)" where
  "report_results exec = snd (report_failures exec (exec_Failed exec) [] Map.empty)"

text \<open>
  The test cases that the fail events of a stream name: each event is added to the
  execution, and a fail event of a test is looked up in the execution as it then is.
\<close>

fun observed_failing ::
  "(TestEvent \<Rightarrow> Execution \<Rightarrow> Execution) \<Rightarrow> Execution \<Rightarrow> TestEvent list \<Rightarrow> TestCase list"
where
  "observed_failing addf ex [] = []"
| "observed_failing addf ex (ev # evs) =
     (if \<not> PackageEvent ev \<and> Action ev = ''fail''
      then [LastFailedByName (exec_Package (addf ev ex) (ev_Package ev)) (ev_Test ev)]
      else []) @ observed_failing addf (addf ev ex) evs"

text \<open>The execution after a stream of events.\<close>

definition scanned ::
  "(TestEvent \<Rightarrow> Execution \<Rightarrow> Execution) \<Rightarrow> Execution \<Rightarrow> TestEvent list \<Rightarrow> Execution"
where
  "scanned addf ex evs = foldl (\<lambda>ex ev. addf ev ex) ex evs"

text \<open>
  The events and the exit errors of the processes of a list of started processes, as
  the environment gives them.
\<close>

definition delivered_events :: "'h Env \<Rightarrow> (nat \<times> nat \<times> string list) list \<Rightarrow> TestEvent list" where
  "delivered_events E log =
     concat (map (\<lambda>(a, i, cmdArgs).
                    case startGoTestFn E a i cmdArgs of Inl err \<Rightarrow> [] | Inr p \<Rightarrow> events p) log)"

definition exit_errors :: "'h Env \<Rightarrow> (nat \<times> nat \<times> string list) list \<Rightarrow> error option list" where
  "exit_errors E log =
     map (\<lambda>(a, i, cmdArgs).
            case startGoTestFn E a i cmdArgs of Inl err \<Rightarrow> None | Inr p \<Rightarrow> waitErr p) log"

text \<open>The last error of a list of errors that is not nil, or nil.\<close>

definition last_error :: "error option list \<Rightarrow> error option" where
  "last_error errs = (case filter (\<lambda>e. e \<noteq> None) errs of [] \<Rightarrow> None | e # es \<Rightarrow> last (e # es))"

text \<open>The processes that a session has started, beyond those of its initial state.\<close>

definition started_since :: "'h State \<Rightarrow> 'h State \<Rightarrow> (nat \<times> nat \<times> string list) list" where
  "started_since st st' = drop (length (started st)) (started st')"

text \<open>The state in the result of the loops.\<close>

definition state_of_round ::
  "(error \<times> 'h State) + ('h failureRecorder \<times> Profile list \<times> 'h State) \<Rightarrow> 'h State"
where
  "state_of_round res = (case res of Inl (err, st) \<Rightarrow> st | Inr (r, ps, st) \<Rightarrow> st)"

definition state_of_loop ::
  "(error \<times> 'h State) + (nat \<times> 'h failureRecorder \<times> Profile list \<times> 'h State) \<Rightarrow> 'h State"
where
  "state_of_loop res = (case res of Inl (err, st) \<Rightarrow> st | Inr (n, r, ps, st) \<Rightarrow> st)"

subsection \<open>Sessions used as examples\<close>

text \<open>
  An execution that aggregates events in the simplest way: the fail event of a test
  records a failed case in its package and in the execution, the pass event a passed
  case.
\<close>

definition simple_add :: "TestEvent \<Rightarrow> Execution \<Rightarrow> Execution" where
  "simple_add ev ex =
     (if PackageEvent ev then ex
      else
        (let tc = \<lparr>Package = ev_Package ev, Test = ev_Test ev\<rparr>;
             p = exec_Package ex (ev_Package ev)
         in if Action ev = ''fail'' then
              ex\<lparr>exec_Failed := exec_Failed ex @ [tc],
                 exec_Package := (exec_Package ex)(ev_Package ev := p\<lparr>Failed := Failed p @ [tc]\<rparr>)\<rparr>
            else if Action ev = ''pass'' then
              ex\<lparr>exec_Package := (exec_Package ex)(ev_Package ev := p\<lparr>Passed := Passed p @ [tc]\<rparr>)\<rparr>
            else ex))"

definition test_event :: "string \<Rightarrow> TestCase \<Rightarrow> TestEvent" where
  "test_event action tc =
     \<lparr>Action = action, ev_Package = Package tc, ev_Test = Test tc, PackageEvent = False\<rparr>"

definition TestA :: TestCase where
  "TestA = \<lparr>Package = ''pkg'', Test = ''TestA''\<rparr>"

definition TestB :: TestCase where
  "TestB = \<lparr>Package = ''pkg'', Test = ''TestB''\<rparr>"

text \<open>
  The initial run has failed \<open>TestA\<close> and \<open>TestB\<close>. In the first round \<open>TestA\<close> passes
  and \<open>TestB\<close> fails again with exit code 1; in the second round \<open>TestB\<close> passes. No
  other process can be started. The consumer counts the events it is given.
\<close>

definition two_round_Env :: "nat Env" where
  "two_round_Env =
     \<lparr>Handler = (\<lambda>ev ex n. (None, Suc n)),
      add = simple_add,
      FilterFailedUnique = remdups,
      ParseCoverProfile = (\<lambda>as. (False, [])),
      goTestCmdArgs = (\<lambda>opts ro. Args ro),
      PrintSummary = (\<lambda>ex. ''DONE''),
      startGoTestFn = (\<lambda>a i cmdArgs.
        if a = 0 \<and> i = 0 \<and> cmdArgs = [''-test.run=^TestA$'', ''pkg''] then
          Inr \<lparr>events = [test_event ''run'' TestA, test_event ''pass'' TestA],
               scanErr = None, waitErr = None, coverOut = None, removeDenied = None\<rparr>
        else if a = 0 \<and> i = 1 \<and> cmdArgs = [''-test.run=^TestB$'', ''pkg''] then
          Inr \<lparr>events = [test_event ''run'' TestB, test_event ''fail'' TestB],
               scanErr = None, waitErr = Some (ExitError 1 ''exit status 1''),
               coverOut = None, removeDenied = None\<rparr>
        else if a = 1 \<and> i = 0 \<and> cmdArgs = [''-test.run=^TestB$'', ''pkg''] then
          Inr \<lparr>events = [test_event ''run'' TestB, test_event ''pass'' TestB],
               scanErr = None, waitErr = None, coverOut = None, removeDenied = None\<rparr>
        else Inl (Errorf ''no such process''))\<rparr>"

definition two_round_State :: "nat State" where
  "two_round_State =
     \<lparr>execution =
        \<lparr>exec_Failed = [TestA, TestB],
         exec_Package = (\<lambda>name. if name = ''pkg'' then \<lparr>Failed = [TestA, TestB], Passed = []\<rparr>
                                  else \<lparr>Failed = [], Passed = []\<rparr>),
         Errors = [], HasPanic = False\<rparr>,
      consumer = 0, fsys = Map.empty, stdout = [], started = []\<rparr>"

definition attempts_opts :: "int \<Rightarrow> options" where
  "attempts_opts n =
     \<lparr>args = [], rerunFailsMaxAttempts = n, rerunFailsRunRootCases = False,
      rerunFailsReportFile = []\<rparr>"

text \<open>
  A session with coverage: \<open>TestA\<close> has failed, the main coverage file holds one block
  with count 3, and the rerun of \<open>TestA\<close> passes and writes a profile with the same
  block and count 5. The removal of the file of the rerun fails with \<open>denied\<close>, if
  given.
\<close>

definition block_a :: "int \<Rightarrow> Block" where
  "block_a c =
     \<lparr>File = ''a.go'', StartLine = 1, StartCol = 2, EndLine = 3, EndCol = 4,
      NumStmt = 1, Count = c\<rparr>"

definition cover_Env :: "error option \<Rightarrow> nat Env" where
  "cover_Env denied =
     \<lparr>Handler = (\<lambda>ev ex n. (None, Suc n)),
      add = simple_add,
      FilterFailedUnique = remdups,
      ParseCoverProfile = (\<lambda>as. (True, ''cover.out'')),
      goTestCmdArgs = (\<lambda>opts ro. Args ro),
      PrintSummary = (\<lambda>ex. ''DONE''),
      startGoTestFn = (\<lambda>a i cmdArgs.
        if a = 0 \<and> i = 0 \<and>
           cmdArgs = [''-test.run=^TestA$'', ''pkg'', ''-coverprofile=cover.out.0.0''] then
          Inr \<lparr>events = [test_event ''run'' TestA, test_event ''pass'' TestA],
               scanErr = None, waitErr = None, coverOut = Some [[block_a 5]],
               removeDenied = denied\<rparr>
        else Inl (Errorf ''no such process''))\<rparr>"

definition cover_State :: "nat State" where
  "cover_State =
     \<lparr>execution =
        \<lparr>exec_Failed = [TestA],
         exec_Package = (\<lambda>name. if name = ''pkg'' then \<lparr>Failed = [TestA], Passed = []\<rparr>
                                  else \<lparr>Failed = [], Passed = []\<rparr>),
         Errors = [], HasPanic = False\<rparr>,
      consumer = 0, fsys = Map.empty(''cover.out'' \<mapsto> [[block_a 3]]), stdout = [],
      started = []\<rparr>"

text \<open>
  An execution with two failures of different packages and tests whose names
  \<^verbatim>\<open>package.test\<close> are the same string: the subtest \<^verbatim>\<open>Test/a.Test/b\<close> of package
  \<^verbatim>\<open>m\<close>, run once, and the subtest \<^verbatim>\<open>Test/b\<close> of package \<^verbatim>\<open>m.Test/a\<close>, run five
  times with three failures.
\<close>

definition K1 :: TestCase where
  "K1 = \<lparr>Package = ''m'', Test = ''Test/a.Test/b''\<rparr>"

definition K2 :: TestCase where
  "K2 = \<lparr>Package = ''m.Test/a'', Test = ''Test/b''\<rparr>"

definition collide_exec :: Execution where
  "collide_exec =
     \<lparr>exec_Failed = [K1, K2],
      exec_Package = (\<lambda>name. if name = ''m'' then \<lparr>Failed = [K1], Passed = []\<rparr>
                               else if name = ''m.Test/a''
                                 then \<lparr>Failed = [K2, K2, K2], Passed = [K2, K2]\<rparr>
                               else \<lparr>Failed = [], Passed = []\<rparr>),
      Errors = [], HasPanic = False\<rparr>"

definition report_opts :: options where
  "report_opts =
     \<lparr>args = [], rerunFailsMaxAttempts = 2, rerunFailsRunRootCases = False,
      rerunFailsReportFile = ''report.txt''\<rparr>"

section \<open>Properties\<close>

subsection \<open>The run-flag builder\<close>

lemma Split_slash_nonempty: "Split_slash s \<noteq> []"
  by (induction s) (auto split: list.splits)

lemma join_slash_Cons:
  "join_slash (p # ps) = (if ps = [] then p else p @ ''/'' @ join_slash ps)"
  by (cases ps) simp_all

lemma runFlag_parts_eq:
  "runFlag_parts i ps sb =
     (if ps = [] then sb
      else (if i > 0 then sb @ ''/'' else sb) @ join_slash (map anchored ps))"
proof (induction ps arbitrary: i sb)
  case Nil
  then show ?case by simp
next
  case (Cons p ps)
  have "runFlag_parts i (p # ps) sb =
          runFlag_parts (i + 1) ps ((if i > 0 then sb @ ''/'' else sb) @ anchored p)"
    by (simp add: anchored_def)
  also have "\<dots> = (if ps = [] then (if i > 0 then sb @ ''/'' else sb) @ anchored p
       else ((if i > 0 then sb @ ''/'' else sb) @ anchored p) @ ''/'' @ join_slash (map anchored ps))"
    by (simp add: Cons.IH)
  also have "\<dots> = (if i > 0 then sb @ ''/'' else sb) @ join_slash (map anchored (p # ps))"
    by (simp add: join_slash_Cons)
  finally show ?case by simp
qed

lemma Split_slash_root: "\<not> IsSubTest t \<Longrightarrow> Split_slash t = [t]"
  by (induction t) (auto simp: IsSubTest_def)

lemma join_Split_slash: "join_slash (Split_slash s) = s"
proof (induction s)
  case Nil
  then show ?case by simp
next
  case (Cons c s)
  obtain p ps where sp: "Split_slash s = p # ps"
    using Split_slash_nonempty [of s] by (cases "Split_slash s") auto
  with Cons show ?case
    by (cases ps) auto
qed

lemma Split_slash_no_sep: "p \<in> set (Split_slash s) \<Longrightarrow> CHR ''/'' \<notin> set p"
  by (induction s arbitrary: p) (auto split: list.splits if_splits)

lemma special_backslash: "special backslash"
  by (simp add: special_def specialBytes_def)

lemma literal_of_QuoteMeta: "literal_of (QuoteMeta s) = Some s"
  by (induction s) (auto simp: special_backslash)

lemma QuoteMeta_plain: "\<forall>b\<in>set s. \<not> special b \<Longrightarrow> QuoteMeta s = s"
  by (induction s) auto

lemma goTestRunFlag_closed_form:
  "goTestRunFlagForTestCase t = ''-test.run='' @ join_slash (map anchored (Split_slash t))"
  by (simp add: goTestRunFlagForTestCase_def runFlag_parts_eq Split_slash_nonempty
        Split_slash_root anchored_def Name_def)

text \<open>
  C3, as amended. For every test name the flag is \<^verbatim>\<open>-test.run=\<close> followed by the
  segments of the name (the pieces between the separators \<^verbatim>\<open>/\<close>, which give the name
  back when joined), each anchored by \<^verbatim>\<open>^\<close> and \<^verbatim>\<open>$\<close> and each escaped by
  \<^verbatim>\<open>regexp.QuoteMeta\<close>, joined by \<^verbatim>\<open>/\<close>; a root name has itself as its only segment.
  \<^verbatim>\<open>QuoteMeta\<close> leaves a segment without special bytes as it is, and a space is not a
  special byte: \<^verbatim>\<open>TestFoo\<close> gives \<^verbatim>\<open>^TestFoo$\<close> and \<^verbatim>\<open>TestFoo/bar baz\<close> gives
  \<^verbatim>\<open>^TestFoo$/^bar baz$\<close>.
\<close>

theorem run_flag_anchors_each_segment:
  "goTestRunFlagForTestCase t = ''-test.run='' @ join_slash (map anchored (Split_slash t))
   \<and> join_slash (Split_slash t) = t
   \<and> (\<forall>p \<in> set (Split_slash t). CHR ''/'' \<notin> set p)
   \<and> (\<not> IsSubTest t \<longrightarrow> goTestRunFlagForTestCase t = ''-test.run=^'' @ QuoteMeta t @ ''$'')
   \<and> (\<forall>p \<in> set (Split_slash t). (\<forall>b \<in> set p. \<not> special b) \<longrightarrow> anchored p = ''^'' @ p @ ''$'')
   \<and> \<not> special (CHR '' '')
   \<and> goTestRunFlagForTestCase ''TestFoo'' = ''-test.run=^TestFoo$''
   \<and> goTestRunFlagForTestCase ''TestFoo/bar baz'' = ''-test.run=^TestFoo$/^bar baz$''"
proof -
  have a: "\<not> IsSubTest t \<longrightarrow> goTestRunFlagForTestCase t = ''-test.run=^'' @ QuoteMeta t @ ''$''"
    by (simp add: goTestRunFlagForTestCase_def Name_def)
  have b: "\<forall>p \<in> set (Split_slash t). (\<forall>b \<in> set p. \<not> special b) \<longrightarrow> anchored p = ''^'' @ p @ ''$''"
    by (simp add: anchored_def QuoteMeta_plain)
  have c: "\<not> special (CHR '' '')"
    by (simp add: special_def specialBytes_def backslash_def)
  have d: "goTestRunFlagForTestCase ''TestFoo'' = ''-test.run=^TestFoo$''"
    by code_simp
  have e: "goTestRunFlagForTestCase ''TestFoo/bar baz'' = ''-test.run=^TestFoo$/^bar baz$''"
    by code_simp
  show ?thesis
    using goTestRunFlag_closed_form [of t] join_Split_slash [of t] Split_slash_no_sep [of _ t]
      a b c d e
    by blast
qed

theorem run_flag_anchors_each_segment_witness:
  "goTestRunFlagForTestCase ''TestOne/Subtest(A)'' =
     ''-test.run=^TestOne$/^Subtest'' @ [CHR 0x5C] @ ''(A'' @ [CHR 0x5C] @ '')$''
   \<and> ''TestOne'' \<in> set (Split_slash ''TestOne/Subtest(A)'')
   \<and> CHR ''/'' \<notin> set ''TestOne''
   \<and> anchored ''TestOne'' = ''^TestOne$''
   \<and> \<not> IsSubTest ''TestOne''
   \<and> goTestRunFlagForTestCase ''TestOne'' = ''-test.run=^TestOne$''"
proof -
  have m: "''TestOne'' \<in> set (Split_slash ''TestOne/Subtest(A)'')"
    by simp
  have n: "\<forall>b \<in> set ''TestOne''. \<not> special b"
    by (simp add: special_def specialBytes_def backslash_def)
  have r: "\<not> IsSubTest ''TestOne''"
    by (simp add: IsSubTest_def)
  have q: "QuoteMeta ''TestOne'' = ''TestOne''"
    using n by (simp add: QuoteMeta_plain)
  have v: "join_slash (map anchored (Split_slash ''TestOne/Subtest(A)'')) =
      ''^TestOne$/^Subtest'' @ [CHR 0x5C] @ ''(A'' @ [CHR 0x5C] @ '')$''"
    by (simp add: anchored_def special_def specialBytes_def backslash_def)
  show ?thesis
    using run_flag_anchors_each_segment [of "''TestOne/Subtest(A)''"]
      run_flag_anchors_each_segment [of "''TestOne''"] m n r q v
    by simp
qed

text \<open>
  C3 as the specification states it fails on its own example: \<^verbatim>\<open>regexp.QuoteMeta\<close>
  does not escape the space of \<^verbatim>\<open>TestFoo/bar baz\<close>, so the flag is not
  \<^verbatim>\<open>-test.run=^TestFoo$/^bar\ baz$\<close>.
\<close>

theorem run_flag_space_counterexample:
  "goTestRunFlagForTestCase ''TestFoo/bar baz'' = ''-test.run=^TestFoo$/^bar baz$''
   \<and> goTestRunFlagForTestCase ''TestFoo/bar baz'' \<noteq>
       ''-test.run=^TestFoo$/^bar'' @ [CHR 0x5C] @ '' baz$''"
  by code_simp

text \<open>
  C10. For a root test name the flag is \<^verbatim>\<open>-test.run=^\<close>, the name escaped by
  \<^verbatim>\<open>regexp.QuoteMeta\<close>, and \<^verbatim>\<open>$\<close>; the escaped name is a sequence of literals of
  the regular expression that spells the name, so the pattern matches the name
  literally. \<^verbatim>\<open>TestFoo.Bar\<close> gives \<^verbatim>\<open>^TestFoo\.Bar$\<close>.
\<close>

theorem root_name_is_escaped:
  assumes "\<not> IsSubTest t"
  shows "goTestRunFlagForTestCase t = ''-test.run=^'' @ QuoteMeta t @ ''$''
         \<and> literal_of (QuoteMeta t) = Some t
         \<and> goTestRunFlagForTestCase ''TestFoo.Bar'' = ''-test.run=^TestFoo'' @ [CHR 0x5C] @ ''.Bar$''"
proof -
  have "goTestRunFlagForTestCase ''TestFoo.Bar'' = ''-test.run=^TestFoo'' @ [CHR 0x5C] @ ''.Bar$''"
    by code_simp
  with assms show ?thesis
    by (simp add: goTestRunFlagForTestCase_def Name_def literal_of_QuoteMeta)
qed

theorem root_name_is_escaped_witness:
  "\<not> IsSubTest ''TestFoo.Bar''
   \<and> goTestRunFlagForTestCase ''TestFoo.Bar'' = ''-test.run=^TestFoo'' @ [CHR 0x5C] @ ''.Bar$''
   \<and> literal_of (''TestFoo'' @ [CHR 0x5C] @ ''.Bar'') = Some ''TestFoo.Bar''"
proof -
  have r: "\<not> IsSubTest ''TestFoo.Bar''"
    by (simp add: IsSubTest_def)
  have q: "QuoteMeta ''TestFoo.Bar'' = ''TestFoo'' @ [CHR 0x5C] @ ''.Bar''"
    by (simp add: special_def specialBytes_def backslash_def)
  show ?thesis
    using root_name_is_escaped [OF r] r q by simp
qed

subsection \<open>The outcome classifier\<close>

text \<open>
  C2. \<^verbatim>\<open>hasErrors\<close> returns an error iff the execution has a recorded error, or the
  normalized exit code (0 for nil) is greater than 1, or the execution reports a
  suspected panic. The three rules are tried in this order, each with its own
  message, and exit codes 0 and 1 without recorded errors and without a suspected
  panic give nil.
\<close>

theorem hasErrors_abort_rules:
  "(hasErrors err exec \<noteq> None \<longleftrightarrow>
      Errors exec \<noteq> [] \<or> ExitCodeWithDefault err > 1 \<or> HasPanic exec)
   \<and> (Errors exec \<noteq> [] \<longrightarrow>
        hasErrors err exec = Some (Errorf ''rerun aborted because previous run had errors''))
   \<and> (Errors exec = [] \<and> ExitCodeWithDefault err > 1 \<longrightarrow>
        hasErrors err exec = Some (Errorf (''unexpected go test exit code: '' @ fmt_v err)))
   \<and> (Errors exec = [] \<and> \<not> ExitCodeWithDefault err > 1 \<and> HasPanic exec \<longrightarrow>
        hasErrors err exec =
          Some (Errorf (''rerun aborted because previous run had a suspected panic'' @
                        '' and some test may not have run'')))
   \<and> (Errors exec = [] \<and> (ExitCodeWithDefault err = 0 \<or> ExitCodeWithDefault err = 1) \<and>
        \<not> HasPanic exec \<longrightarrow> hasErrors err exec = None)
   \<and> ExitCodeWithDefault None = 0"
  by (simp add: hasErrors_def)

theorem hasErrors_abort_rules_witness:
  "hasErrors (Some (ExitError 2 ''exit status 2''))
       \<lparr>exec_Failed = [], exec_Package = (\<lambda>n. \<lparr>Failed = [], Passed = []\<rparr>),
        Errors = [''bad''], HasPanic = True\<rparr>
     = Some (Errorf ''rerun aborted because previous run had errors'')
   \<and> hasErrors (Some (ExitError 2 ''exit status 2''))
       \<lparr>exec_Failed = [], exec_Package = (\<lambda>n. \<lparr>Failed = [], Passed = []\<rparr>),
        Errors = [], HasPanic = True\<rparr>
     = Some (Errorf ''unexpected go test exit code: exit status 2'')
   \<and> hasErrors (Some (ExitError 1 ''exit status 1''))
       \<lparr>exec_Failed = [], exec_Package = (\<lambda>n. \<lparr>Failed = [], Passed = []\<rparr>),
        Errors = [], HasPanic = True\<rparr>
     = Some (Errorf (''rerun aborted because previous run had a suspected panic'' @
                     '' and some test may not have run''))
   \<and> hasErrors (Some (ExitError 1 ''exit status 1''))
       \<lparr>exec_Failed = [], exec_Package = (\<lambda>n. \<lparr>Failed = [], Passed = []\<rparr>),
        Errors = [], HasPanic = False\<rparr>
     = None
   \<and> hasErrors None
       \<lparr>exec_Failed = [], exec_Package = (\<lambda>n. \<lparr>Failed = [], Passed = []\<rparr>),
        Errors = [], HasPanic = False\<rparr>
     = None"
  using
    hasErrors_abort_rules [of "Some (ExitError 2 ''exit status 2'')"
      "\<lparr>exec_Failed = [], exec_Package = (\<lambda>n. \<lparr>Failed = [], Passed = []\<rparr>),
        Errors = [''bad''], HasPanic = True\<rparr>"]
    hasErrors_abort_rules [of "Some (ExitError 2 ''exit status 2'')"
      "\<lparr>exec_Failed = [], exec_Package = (\<lambda>n. \<lparr>Failed = [], Passed = []\<rparr>),
        Errors = [], HasPanic = True\<rparr>"]
    hasErrors_abort_rules [of "Some (ExitError 1 ''exit status 1'')"
      "\<lparr>exec_Failed = [], exec_Package = (\<lambda>n. \<lparr>Failed = [], Passed = []\<rparr>),
        Errors = [], HasPanic = True\<rparr>"]
    hasErrors_abort_rules [of "Some (ExitError 1 ''exit status 1'')"
      "\<lparr>exec_Failed = [], exec_Package = (\<lambda>n. \<lparr>Failed = [], Passed = []\<rparr>),
        Errors = [], HasPanic = False\<rparr>"]
    hasErrors_abort_rules [of None
      "\<lparr>exec_Failed = [], exec_Package = (\<lambda>n. \<lparr>Failed = [], Passed = []\<rparr>),
        Errors = [], HasPanic = False\<rparr>"]
  by simp

subsection \<open>The failure recorder\<close>

text \<open>
  C7. \<^verbatim>\<open>Event\<close> appends a test case to the failures of the recorder exactly when
  the event is not a package event and its action is \<^verbatim>\<open>fail\<close>; the case appended is
  the last failed case of that test name in the package of the event. Every event,
  failing or not, is passed with the execution to the wrapped handler, whose error and
  whose effect on the consumer are those of \<^verbatim>\<open>Event\<close>; the recorder keeps its handler
  and its last error.
\<close>

theorem Event_records_and_forwards:
  "failures (fst (snd (Event r ev ex hs))) =
     (if \<not> PackageEvent ev \<and> Action ev = ''fail''
      then failures r @ [LastFailedByName (exec_Package ex (ev_Package ev)) (ev_Test ev)]
      else failures r)
   \<and> (\<forall>h. EventHandler r = Some h \<longrightarrow>
         (fst (Event r ev ex hs), snd (snd (Event r ev ex hs))) = h ev ex hs)
   \<and> EventHandler (fst (snd (Event r ev ex hs))) = EventHandler r
   \<and> lastErr (fst (snd (Event r ev ex hs))) = lastErr r"
  by (auto simp: Event_def ActionFail_def Let_def split: option.splits prod.splits)

theorem Event_records_and_forwards_witness:
  "failures (fst (snd (Event
       (newFailureRecorder (\<lambda>ev ex n. (None, Suc n)))
       \<lparr>Action = ''fail'', ev_Package = ''p'', ev_Test = ''TestA'', PackageEvent = False\<rparr>
       \<lparr>exec_Failed = [],
        exec_Package = (\<lambda>n. \<lparr>Failed = [\<lparr>Package = ''p'', Test = ''TestA''\<rparr>], Passed = []\<rparr>),
        Errors = [], HasPanic = False\<rparr> (0::nat))))
     = [\<lparr>Package = ''p'', Test = ''TestA''\<rparr>]
   \<and> snd (snd (Event
       (newFailureRecorder (\<lambda>ev ex n. (None, Suc n)))
       \<lparr>Action = ''fail'', ev_Package = ''p'', ev_Test = ''TestA'', PackageEvent = False\<rparr>
       \<lparr>exec_Failed = [],
        exec_Package = (\<lambda>n. \<lparr>Failed = [\<lparr>Package = ''p'', Test = ''TestA''\<rparr>], Passed = []\<rparr>),
        Errors = [], HasPanic = False\<rparr> (0::nat))) = 1"
  using Event_records_and_forwards [where
       ev = "\<lparr>Action = ''fail'', ev_Package = ''p'', ev_Test = ''TestA'', PackageEvent = False\<rparr>"
       and r = "newFailureRecorder (\<lambda>ev ex n. (None, Suc n))"
       and ex = "\<lparr>exec_Failed = [],
        exec_Package = (\<lambda>n. \<lparr>Failed = [\<lparr>Package = ''p'', Test = ''TestA''\<rparr>], Passed = []\<rparr>),
        Errors = [], HasPanic = False\<rparr>" and hs = "0::nat"]
  by (simp add: newFailureRecorder_def LastFailedByName_def Name_def)

subsection \<open>Merging coverage profiles\<close>

lemma key_Count_update: "key (c\<lparr>Count := n\<rparr>) = key c"
  by (simp add: key_def)

lemma count_of_add_block:
  "count_of k (add_block b acc) = count_of k acc + (if key b = k then Count b else 0)"
  by (induction acc) (auto simp: count_of_def key_Count_update)

lemma keys_add_block:
  "map key (add_block b acc) =
     (if key b \<in> set (map key acc) then map key acc else map key acc @ [key b])"
  by (induction acc) (auto simp: key_Count_update)

lemma add_block_keeps:
  "b \<in> set acc \<Longrightarrow> key c \<noteq> key b \<Longrightarrow> b \<in> set (add_block c acc)"
  by (induction acc) auto

lemma add_block_new: "key b \<notin> set (map key acc) \<Longrightarrow> b \<in> set (add_block b acc)"
  by (induction acc) auto

lemma count_of_foldl:
  "count_of k (foldl (\<lambda>acc b. add_block b acc) acc bs) = count_of k acc + count_of k bs"
proof (induction bs arbitrary: acc)
  case Nil
  then show ?case by (simp add: count_of_def)
next
  case (Cons b bs)
  have "count_of k (b # bs) = (if key b = k then Count b else 0) + count_of k bs"
    by (simp add: count_of_def)
  then show ?case
    by (simp add: Cons.IH count_of_add_block)
qed

lemma keys_foldl:
  "distinct (map key acc) \<Longrightarrow>
   distinct (map key (foldl (\<lambda>acc b. add_block b acc) acc bs)) \<and>
   set (map key (foldl (\<lambda>acc b. add_block b acc) acc bs)) = set (map key acc) \<union> set (map key bs)"
proof (induction bs arbitrary: acc)
  case Nil
  then show ?case by simp
next
  case (Cons b bs)
  have d: "distinct (map key (add_block b acc))"
    using Cons.prems by (simp add: keys_add_block)
  have s: "set (map key (add_block b acc)) = insert (key b) (set (map key acc))"
    by (auto simp: keys_add_block)
  show ?case
    using Cons.IH [OF d] s by auto
qed

lemma foldl_keeps:
  "b \<in> set acc \<Longrightarrow> \<forall>c \<in> set bs. key c \<noteq> key b \<Longrightarrow>
   b \<in> set (foldl (\<lambda>acc b. add_block b acc) acc bs)"
  by (induction bs arbitrary: acc) (auto simp: add_block_keeps)

lemma merge_blocks_pass_through:
  assumes "\<forall>c \<in> set xs \<union> set ys. key c \<noteq> key b"
  shows "b \<in> set (merge_blocks (xs @ b # ys))"
proof -
  let ?f = "\<lambda>acc b. add_block b acc"
  have "set (map key (foldl ?f [] xs)) = set (map key xs)"
    using keys_foldl [of "[]" xs] by simp
  then have "key b \<notin> set (map key (foldl ?f [] xs))"
    using assms by auto
  then have "b \<in> set (add_block b (foldl ?f [] xs))"
    by (rule add_block_new)
  then have "b \<in> set (foldl ?f (add_block b (foldl ?f [] xs)) ys)"
    using assms by (intro foldl_keeps) auto
  then show ?thesis
    by (simp add: merge_blocks_def)
qed

lemma count_of_concat: "count_of k (concat pss) = sum_list (map (count_of k) pss)"
  by (induction pss) (auto simp: count_of_def)

lemma count_of_distinct:
  "distinct (map key xs) \<Longrightarrow> c \<in> set xs \<Longrightarrow> count_of (key c) xs = Count c"
proof (induction xs)
  case Nil
  then show ?case by simp
next
  case (Cons a xs)
  show ?case
  proof (cases "c = a")
    case True
    have "key a \<notin> key ` set xs"
      using Cons.prems(1) by simp
    then have "\<forall>b \<in> set xs. key b \<noteq> key a"
      by (metis imageI)
    then have "filter (\<lambda>b. key b = key a) xs = []"
      by (simp add: filter_empty_conv)
    with True show ?thesis
      by (simp add: count_of_def)
  next
    case False
    with Cons.prems have "c \<in> set xs" and "key a \<noteq> key c"
      by auto
    with Cons show ?thesis
      by (simp add: count_of_def)
  qed
qed

lemma merged_Count:
  assumes "c \<in> set (merge_blocks bs)"
  shows "Count c = count_of (key c) bs"
proof -
  have d: "distinct (map key (merge_blocks bs))"
    using keys_foldl [of "[]" bs] by (simp add: merge_blocks_def)
  have "count_of (key c) (merge_blocks bs) = count_of (key c) bs"
    using count_of_foldl [of "key c" "[]" bs] by (simp add: merge_blocks_def count_of_def)
  with count_of_distinct [OF d assms] show ?thesis
    by simp
qed

text \<open>
  C8. \<^verbatim>\<open>Combine\<close> replaces the original coverage file by the merge of its blocks
  with the blocks of the rerun profiles. In the merge every key of a block occurs
  once; the count of a merged block is the sum of the counts of the blocks of its key,
  which is the sum over the profiles of their counts for the key (3 and 5 give 8); a
  block whose key occurs once passes through unchanged.
\<close>

theorem Combine_sums_counts:
  "(\<forall>original. fs mainProfilePath = Some original \<longrightarrow>
      Combine mainProfilePath rerunProfiles fs =
        Inr (fs(mainProfilePath \<mapsto> [merge_blocks (concat (original @ rerunProfiles))])))
   \<and> distinct (map key (merge_blocks (concat profiles)))
   \<and> set (map key (merge_blocks (concat profiles))) = set (map key (concat profiles))
   \<and> (\<forall>c \<in> set (merge_blocks (concat profiles)).
         Count c = sum_list (map (count_of (key c)) profiles))
   \<and> (\<forall>xs b ys. concat profiles = xs @ b # ys \<and> (\<forall>c \<in> set xs \<union> set ys. key c \<noteq> key b) \<longrightarrow>
         b \<in> set (merge_blocks (concat profiles)))
   \<and> merge_blocks (concat
        [[\<lparr>File = ''a.go'', StartLine = 1, StartCol = 2, EndLine = 3, EndCol = 4,
            NumStmt = 1, Count = 3\<rparr>,
          \<lparr>File = ''a.go'', StartLine = 5, StartCol = 2, EndLine = 6, EndCol = 4,
            NumStmt = 2, Count = 1\<rparr>],
         [\<lparr>File = ''a.go'', StartLine = 1, StartCol = 2, EndLine = 3, EndCol = 4,
            NumStmt = 1, Count = 5\<rparr>]])
       = [\<lparr>File = ''a.go'', StartLine = 1, StartCol = 2, EndLine = 3, EndCol = 4,
            NumStmt = 1, Count = 8\<rparr>,
          \<lparr>File = ''a.go'', StartLine = 5, StartCol = 2, EndLine = 6, EndCol = 4,
            NumStmt = 2, Count = 1\<rparr>]"
proof -
  have a: "\<forall>original. fs mainProfilePath = Some original \<longrightarrow>
      Combine mainProfilePath rerunProfiles fs =
        Inr (fs(mainProfilePath \<mapsto> [merge_blocks (concat (original @ rerunProfiles))]))"
    by (simp add: Combine_def)
  have b: "distinct (map key (merge_blocks (concat profiles))) \<and>
      set (map key (merge_blocks (concat profiles))) = set (map key (concat profiles))"
    using keys_foldl [of "[]" "concat profiles"] by (simp add: merge_blocks_def)
  have c: "\<forall>c \<in> set (merge_blocks (concat profiles)).
         Count c = sum_list (map (count_of (key c)) profiles)"
    by (simp add: merged_Count count_of_concat)
  have d: "\<forall>xs b ys. concat profiles = xs @ b # ys \<and> (\<forall>c \<in> set xs \<union> set ys. key c \<noteq> key b) \<longrightarrow>
         b \<in> set (merge_blocks (concat profiles))"
    using merge_blocks_pass_through by metis
  have e: "merge_blocks (concat
        [[\<lparr>File = ''a.go'', StartLine = 1, StartCol = 2, EndLine = 3, EndCol = 4,
            NumStmt = 1, Count = 3\<rparr>,
          \<lparr>File = ''a.go'', StartLine = 5, StartCol = 2, EndLine = 6, EndCol = 4,
            NumStmt = 2, Count = 1\<rparr>],
         [\<lparr>File = ''a.go'', StartLine = 1, StartCol = 2, EndLine = 3, EndCol = 4,
            NumStmt = 1, Count = 5\<rparr>]])
       = [\<lparr>File = ''a.go'', StartLine = 1, StartCol = 2, EndLine = 3, EndCol = 4,
            NumStmt = 1, Count = 8\<rparr>,
          \<lparr>File = ''a.go'', StartLine = 5, StartCol = 2, EndLine = 6, EndCol = 4,
            NumStmt = 2, Count = 1\<rparr>]"
    by (simp add: merge_blocks_def key_def)
  from a b c d e show ?thesis
    by blast
qed

theorem Combine_sums_counts_witness:
  "Combine ''c.out''
     [[\<lparr>File = ''a.go'', StartLine = 1, StartCol = 2, EndLine = 3, EndCol = 4,
         NumStmt = 1, Count = 5\<rparr>]]
     (Map.empty(''c.out'' \<mapsto>
        [[\<lparr>File = ''a.go'', StartLine = 1, StartCol = 2, EndLine = 3, EndCol = 4,
            NumStmt = 1, Count = 3\<rparr>,
          \<lparr>File = ''a.go'', StartLine = 5, StartCol = 2, EndLine = 6, EndCol = 4,
            NumStmt = 2, Count = 1\<rparr>]]))
   = Inr (Map.empty(''c.out'' \<mapsto>
        [[\<lparr>File = ''a.go'', StartLine = 1, StartCol = 2, EndLine = 3, EndCol = 4,
            NumStmt = 1, Count = 8\<rparr>,
          \<lparr>File = ''a.go'', StartLine = 5, StartCol = 2, EndLine = 6, EndCol = 4,
            NumStmt = 2, Count = 1\<rparr>]]))
   \<and> \<lparr>File = ''a.go'', StartLine = 5, StartCol = 2, EndLine = 6, EndCol = 4,
        NumStmt = 2, Count = 1\<rparr>
      \<in> set (merge_blocks (concat
        [[\<lparr>File = ''a.go'', StartLine = 1, StartCol = 2, EndLine = 3, EndCol = 4,
            NumStmt = 1, Count = 3\<rparr>,
          \<lparr>File = ''a.go'', StartLine = 5, StartCol = 2, EndLine = 6, EndCol = 4,
            NumStmt = 2, Count = 1\<rparr>],
         [\<lparr>File = ''a.go'', StartLine = 1, StartCol = 2, EndLine = 3, EndCol = 4,
            NumStmt = 1, Count = 5\<rparr>]]))"
proof -
  let ?b3 = "\<lparr>File = ''a.go'', StartLine = 1, StartCol = 2, EndLine = 3, EndCol = 4,
               NumStmt = 1, Count = 3\<rparr>"
  let ?b1 = "\<lparr>File = ''a.go'', StartLine = 5, StartCol = 2, EndLine = 6, EndCol = 4,
               NumStmt = 2, Count = 1\<rparr>"
  let ?b5 = "\<lparr>File = ''a.go'', StartLine = 1, StartCol = 2, EndLine = 3, EndCol = 4,
               NumStmt = 1, Count = 5\<rparr>"
  note T = Combine_sums_counts [where fs = "Map.empty(''c.out'' \<mapsto> [[?b3, ?b1]])"
      and mainProfilePath = "''c.out''" and rerunProfiles = "[[?b5]]"
      and profiles = "[[?b3, ?b1], [?b5]]"]
  have mainfile: "(Map.empty(''c.out'' \<mapsto> [[?b3, ?b1]])) ''c.out'' = Some [[?b3, ?b1]]"
    by simp
  have parts: "concat [[?b3, ?b1], [?b5]] = [?b3] @ ?b1 # [?b5]"
    by simp
  have other: "\<forall>c \<in> set [?b3] \<union> set [?b5]. key c \<noteq> key ?b1"
    by (simp add: key_def)
  from T mainfile have 1: "Combine ''c.out'' [[?b5]] (Map.empty(''c.out'' \<mapsto> [[?b3, ?b1]])) =
      Inr ((Map.empty(''c.out'' \<mapsto> [[?b3, ?b1]]))(''c.out'' \<mapsto>
             [merge_blocks (concat ([[?b3, ?b1]] @ [[?b5]]))]))"
    by blast
  from T parts other have 2: "?b1 \<in> set (merge_blocks (concat [[?b3, ?b1], [?b5]]))"
    by blast
  from T have 3: "merge_blocks (concat [[?b3, ?b1], [?b5]]) =
      [?b3\<lparr>Count := 8\<rparr>, ?b1]"
    by simp
  from 1 2 3 show ?thesis
    by simp
qed

subsection \<open>The report of the reruns\<close>

lemma count_failed_le:
  "failed counts \<le> total counts \<Longrightarrow> failed (count_failed tcs t counts) \<le> total (count_failed tcs t counts)"
  by (induction tcs arbitrary: counts) auto

lemma count_passed_le:
  "failed counts \<le> total counts \<Longrightarrow> failed (count_passed tcs t counts) \<le> total (count_passed tcs t counts)"
  by (induction tcs arbitrary: counts) auto

lemma tally_le: "failed (tally exec f) \<le> total (tally exec f)"
  by (simp add: tally_def Let_def count_failed_le count_passed_le)

text \<open>
  The invariant of the loop over the failures: the names are distinct and are the keys
  of the map; a name that is present keeps its counts, and a new name gets the counts
  of the first failure that has it.
\<close>

lemma report_failures_inv:
  assumes "distinct names" and "dom results = set names"
    and "report_failures exec fs names results = (names', results')"
  shows "distinct names' \<and> dom results' = set names'
         \<and> set names' = set names \<union> report_name ` set fs
         \<and> (\<forall>n \<in> set names. results' n = results n)
         \<and> (\<forall>f \<in> set fs. report_name f \<notin> set names \<longrightarrow>
               (\<forall>g. find (\<lambda>g. report_name g = report_name f) fs = Some g \<longrightarrow>
                    results' (report_name f) = Some (tally exec g)))"
  using assms
proof (induction fs arbitrary: names results)
  case Nil
  then show ?case by auto
next
  case (Cons f fs)
  show ?case
  proof (cases "results (report_name f) = None")
    case False
    then have old: "report_name f \<in> set names"
      using Cons.prems(2) by auto
    have run: "report_failures exec fs names results = (names', results')"
      using Cons.prems(3) False by (simp add: Let_def)
    note IH = Cons.IH [OF Cons.prems(1) Cons.prems(2) run]
    show ?thesis
      using IH old by auto
  next
    case True
    then have new: "report_name f \<notin> set names"
      using Cons.prems(2) by auto
    let ?names = "names @ [report_name f]"
    let ?results = "results(report_name f \<mapsto> tally exec f)"
    have d: "distinct ?names"
      using Cons.prems(1) new by simp
    have k: "dom ?results = set ?names"
      using Cons.prems(2) by auto
    have run: "report_failures exec fs ?names ?results = (names', results')"
      using Cons.prems(3) True by (simp add: Let_def)
    note IH = Cons.IH [OF d k run]
    have keep: "results' (report_name f) = Some (tally exec f)"
      using IH by simp
    have olds: "\<forall>n \<in> set names. results' n = results n"
      using IH new by auto
    have news: "\<forall>h \<in> set (f # fs). report_name h \<notin> set names \<longrightarrow>
               (\<forall>g. find (\<lambda>g. report_name g = report_name h) (f # fs) = Some g \<longrightarrow>
                    results' (report_name h) = Some (tally exec g))"
    proof (intro ballI impI allI)
      fix h g
      assume h: "h \<in> set (f # fs)" and hn: "report_name h \<notin> set names"
        and fg: "find (\<lambda>g. report_name g = report_name h) (f # fs) = Some g"
      show "results' (report_name h) = Some (tally exec g)"
      proof (cases "report_name f = report_name h")
        case True
        with fg have "g = f" by simp
        with keep True show ?thesis by simp
      next
        case False
        with h have hfs: "h \<in> set fs" by auto
        from False fg have fg': "find (\<lambda>g. report_name g = report_name h) fs = Some g"
          by simp
        from False hn have "report_name h \<notin> set ?names" by auto
        with IH hfs fg' show ?thesis by blast
      qed
    qed
    show ?thesis
      using IH olds news by auto
  qed
qed

lemma report_collected:
  "distinct (report_names exec)
   \<and> dom (report_results exec) = set (report_names exec)
   \<and> set (report_names exec) = report_name ` set (exec_Failed exec)
   \<and> (\<forall>f \<in> set (exec_Failed exec).
         \<forall>g. find (\<lambda>g. report_name g = report_name f) (exec_Failed exec) = Some g \<longrightarrow>
             report_results exec (report_name f) = Some (tally exec g))"
proof -
  obtain names' results' where
    r: "report_failures exec (exec_Failed exec) [] Map.empty = (names', results')"
    by (cases "report_failures exec (exec_Failed exec) [] Map.empty")
  have "distinct ([]::string list)" and "dom (Map.empty :: string \<rightharpoonup> testCaseCounts) = set []"
    by simp_all
  from report_failures_inv [OF this r] r show ?thesis
    by (simp add: report_names_def report_results_def)
qed


lemma count_list_distinct: "distinct xs \<Longrightarrow> x \<in> set xs \<Longrightarrow> count_list xs x = 1"
  by (induction xs) auto

text \<open>
  C9, as amended. The report is keyed by the name \<^verbatim>\<open>package.test\<close>, a string, and not
  by the pair of package and test. When the report is written, it has one line for
  each name in sorted order; the names are distinct and are the names of the failures
  of the execution, so the name of every failure occurs exactly once. The counts of a
  name are those of the first failure that has it, and the total of every reported
  name is at least its number of failures. When different failures have different
  names, every failure has its own counts on the line of its name.
\<close>

theorem report_counts_each_key_once:
  assumes "rerunFailsMaxAttempts opts \<noteq> 0" and "rerunFailsReportFile opts \<noteq> []"
  shows "writeRerunFailsReport None opts exec out =
           (None, out(rerunFailsReportFile opts \<mapsto>
                        map (\<lambda>name. report_line name (lookup_counts (report_results exec) name))
                          (sort (report_names exec))))
         \<and> sorted (sort (report_names exec))
         \<and> distinct (sort (report_names exec))
         \<and> set (sort (report_names exec)) = report_name ` set (exec_Failed exec)
         \<and> (\<forall>f \<in> set (exec_Failed exec).
               count_list (sort (report_names exec)) (report_name f) = 1)
         \<and> (\<forall>f \<in> set (exec_Failed exec).
               \<forall>g. find (\<lambda>g. report_name g = report_name f) (exec_Failed exec) = Some g \<longrightarrow>
                   lookup_counts (report_results exec) (report_name f) = tally exec g)
         \<and> (\<forall>n \<in> set (sort (report_names exec)).
               failed (lookup_counts (report_results exec) n)
                 \<le> total (lookup_counts (report_results exec) n))
         \<and> (inj_on report_name (set (exec_Failed exec)) \<longrightarrow>
              (\<forall>f \<in> set (exec_Failed exec).
                 lookup_counts (report_results exec) (report_name f) = tally exec f))"
proof -
  note C = report_collected [of exec]
  have w: "writeRerunFailsReport None opts exec out =
           (None, out(rerunFailsReportFile opts \<mapsto>
                        map (\<lambda>name. report_line name (lookup_counts (report_results exec) name))
                          (sort (report_names exec))))"
    using assms
    by (simp add: writeRerunFailsReport_def report_names_def report_results_def Let_def
          split: prod.splits)
  have d: "distinct (sort (report_names exec))"
    using C by simp
  have s: "set (sort (report_names exec)) = report_name ` set (exec_Failed exec)"
    using C by simp
  have once: "\<forall>f \<in> set (exec_Failed exec).
               count_list (sort (report_names exec)) (report_name f) = 1"
    using d s by (simp add: count_list_distinct)
  have first: "\<forall>f \<in> set (exec_Failed exec).
               \<forall>g. find (\<lambda>g. report_name g = report_name f) (exec_Failed exec) = Some g \<longrightarrow>
                   lookup_counts (report_results exec) (report_name f) = tally exec g"
    using C by (simp add: lookup_counts_def)
  have le: "\<forall>n \<in> set (sort (report_names exec)).
               failed (lookup_counts (report_results exec) n)
                 \<le> total (lookup_counts (report_results exec) n)"
  proof
    fix n
    assume "n \<in> set (sort (report_names exec))"
    with s obtain f where f: "f \<in> set (exec_Failed exec)" and n: "n = report_name f"
      by auto
    then obtain g where "find (\<lambda>g. report_name g = report_name f) (exec_Failed exec) = Some g"
      by (cases "find (\<lambda>g. report_name g = report_name f) (exec_Failed exec)")
         (auto simp: find_None_iff)
    with first f n have "lookup_counts (report_results exec) n = tally exec g"
      by simp
    then show "failed (lookup_counts (report_results exec) n)
                 \<le> total (lookup_counts (report_results exec) n)"
      by (simp add: tally_le)
  qed
  have own: "inj_on report_name (set (exec_Failed exec)) \<longrightarrow>
              (\<forall>f \<in> set (exec_Failed exec).
                 lookup_counts (report_results exec) (report_name f) = tally exec f)"
  proof (intro impI ballI)
    fix f
    assume inj: "inj_on report_name (set (exec_Failed exec))"
      and f: "f \<in> set (exec_Failed exec)"
    then obtain g where
      g: "find (\<lambda>g. report_name g = report_name f) (exec_Failed exec) = Some g"
      by (cases "find (\<lambda>g. report_name g = report_name f) (exec_Failed exec)")
         (auto simp: find_None_iff)
    then have "g \<in> set (exec_Failed exec)" and "report_name g = report_name f"
      by (auto simp: find_Some_iff)
    with inj f have "g = f"
      by (auto dest: inj_onD)
    with first f g show "lookup_counts (report_results exec) (report_name f) = tally exec f"
      by simp
  qed
  from w d s once first le own show ?thesis
    by simp
qed


theorem report_counts_each_key_once_witness:
  "fst (writeRerunFailsReport None
      \<lparr>args = [], rerunFailsMaxAttempts = 2, rerunFailsRunRootCases = False,
       rerunFailsReportFile = ''report.txt''\<rparr>
      \<lparr>exec_Failed = [\<lparr>Package = ''p'', Test = ''TestB''\<rparr>, \<lparr>Package = ''p'', Test = ''TestA''\<rparr>,
                      \<lparr>Package = ''p'', Test = ''TestB''\<rparr>],
       exec_Package = (\<lambda>n. \<lparr>Failed = [\<lparr>Package = ''p'', Test = ''TestB''\<rparr>,
                                        \<lparr>Package = ''p'', Test = ''TestA''\<rparr>,
                                        \<lparr>Package = ''p'', Test = ''TestB''\<rparr>],
                             Passed = [\<lparr>Package = ''p'', Test = ''TestB''\<rparr>]\<rparr>),
       Errors = [], HasPanic = False\<rparr>
      Map.empty) = None
   \<and> snd (writeRerunFailsReport None
      \<lparr>args = [], rerunFailsMaxAttempts = 2, rerunFailsRunRootCases = False,
       rerunFailsReportFile = ''report.txt''\<rparr>
      \<lparr>exec_Failed = [\<lparr>Package = ''p'', Test = ''TestB''\<rparr>, \<lparr>Package = ''p'', Test = ''TestA''\<rparr>,
                      \<lparr>Package = ''p'', Test = ''TestB''\<rparr>],
       exec_Package = (\<lambda>n. \<lparr>Failed = [\<lparr>Package = ''p'', Test = ''TestB''\<rparr>,
                                        \<lparr>Package = ''p'', Test = ''TestA''\<rparr>,
                                        \<lparr>Package = ''p'', Test = ''TestB''\<rparr>],
                             Passed = [\<lparr>Package = ''p'', Test = ''TestB''\<rparr>]\<rparr>),
       Errors = [], HasPanic = False\<rparr>
      Map.empty) ''report.txt''
     = Some [''p.TestA: 1 runs, 1 failures'' @ [CHR 0x0A],
             ''p.TestB: 3 runs, 2 failures'' @ [CHR 0x0A]]
   \<and> lookup_counts (report_results
      \<lparr>exec_Failed = [\<lparr>Package = ''p'', Test = ''TestB''\<rparr>, \<lparr>Package = ''p'', Test = ''TestA''\<rparr>,
                      \<lparr>Package = ''p'', Test = ''TestB''\<rparr>],
       exec_Package = (\<lambda>n. \<lparr>Failed = [\<lparr>Package = ''p'', Test = ''TestB''\<rparr>,
                                        \<lparr>Package = ''p'', Test = ''TestA''\<rparr>,
                                        \<lparr>Package = ''p'', Test = ''TestB''\<rparr>],
                             Passed = [\<lparr>Package = ''p'', Test = ''TestB''\<rparr>]\<rparr>),
       Errors = [], HasPanic = False\<rparr>) ''p.TestB'' = \<lparr>total = 3, failed = 2\<rparr>"
proof -
  let ?opts = "\<lparr>args = [], rerunFailsMaxAttempts = 2, rerunFailsRunRootCases = False,
       rerunFailsReportFile = ''report.txt''\<rparr>"
  let ?B = "\<lparr>Package = ''p'', Test = ''TestB''\<rparr>"
  let ?A = "\<lparr>Package = ''p'', Test = ''TestA''\<rparr>"
  let ?exec = "\<lparr>exec_Failed = [?B, ?A, ?B],
       exec_Package = (\<lambda>n. \<lparr>Failed = [?B, ?A, ?B], Passed = [?B]\<rparr>),
       Errors = [], HasPanic = False\<rparr>"
  have on: "rerunFailsMaxAttempts ?opts \<noteq> 0" "rerunFailsReportFile ?opts \<noteq> []"
    by simp_all
  note T = report_counts_each_key_once [OF on, of ?exec Map.empty]
  have names: "sort (report_names ?exec) = [''p.TestA'', ''p.TestB'']"
    by code_simp
  have f: "?B \<in> set (exec_Failed ?exec)" "?A \<in> set (exec_Failed ?exec)"
    by simp_all
  have fB: "find (\<lambda>g. report_name g = report_name ?B) (exec_Failed ?exec) = Some ?B"
    and fA: "find (\<lambda>g. report_name g = report_name ?A) (exec_Failed ?exec) = Some ?A"
    by (simp_all add: report_name_def Name_def)
  from T f(1) fB have cB: "lookup_counts (report_results ?exec) (report_name ?B) = tally ?exec ?B"
    by blast
  from T f(2) fA have cA: "lookup_counts (report_results ?exec) (report_name ?A) = tally ?exec ?A"
    by blast
  have nB: "report_name ?B = ''p.TestB''" and nA: "report_name ?A = ''p.TestA''"
    by (simp_all add: report_name_def Name_def)
  have lB: "report_line ''p.TestB'' (tally ?exec ?B) = ''p.TestB: 3 runs, 2 failures'' @ [CHR 0x0A]"
    by code_simp
  have lA: "report_line ''p.TestA'' (tally ?exec ?A) = ''p.TestA: 1 runs, 1 failures'' @ [CHR 0x0A]"
    by code_simp
  from T have w: "writeRerunFailsReport None ?opts ?exec Map.empty =
           (None, Map.empty(rerunFailsReportFile ?opts \<mapsto>
                        map (\<lambda>name. report_line name (lookup_counts (report_results ?exec) name))
                          (sort (report_names ?exec))))"
    by blast
  have inj: "inj_on report_name (set (exec_Failed ?exec))"
    by (auto simp: inj_on_def report_name_def Name_def)
  from T inj f(1) have "lookup_counts (report_results ?exec) (report_name ?B) = tally ?exec ?B"
    by blast
  moreover have "tally ?exec ?B = \<lparr>total = 3, failed = 2\<rparr>"
    by code_simp
  ultimately have own: "lookup_counts (report_results ?exec) ''p.TestB'' = \<lparr>total = 3, failed = 2\<rparr>"
    unfolding nB by simp
  show ?thesis
    using cA cB lA lB own unfolding w names nA nB by simp
qed

text \<open>
  C9 as the specification states it, by pairs of package and test, fails when two
  pairs have the same name: the two failures of \<open>collide_exec\<close> differ, yet the report
  has the one line of the first, and the five runs and three failures of the second
  are not reported.
\<close>

theorem report_key_collision_counterexample:
  "K1 \<noteq> K2
   \<and> exec_Failed collide_exec = [K1, K2]
   \<and> report_name K1 = report_name K2
   \<and> fst (writeRerunFailsReport None report_opts collide_exec Map.empty) = None
   \<and> snd (writeRerunFailsReport None report_opts collide_exec Map.empty) ''report.txt''
       = Some [''m.Test/a.Test/b: 1 runs, 1 failures'' @ [CHR 0x0A]]
   \<and> tally collide_exec K1 = \<lparr>total = 1, failed = 1\<rparr>
   \<and> tally collide_exec K2 = \<lparr>total = 5, failed = 3\<rparr>"
  by code_simp

subsection \<open>The scan and one rerun\<close>

lemma observed_failing_append:
  "observed_failing addf ex (xs @ ys) =
     observed_failing addf ex xs @ observed_failing addf (scanned addf ex xs) ys"
  by (induction xs arbitrary: ex) (simp_all add: scanned_def)

lemma scanned_append: "scanned addf ex (xs @ ys) = scanned addf (scanned addf ex xs) ys"
  by (simp add: scanned_def)

lemma Event_failures:
  "Event r ev ex hs = (e, r', hs') \<Longrightarrow>
   failures r' = failures r @
     (if \<not> PackageEvent ev \<and> Action ev = ''fail''
      then [LastFailedByName (exec_Package ex (ev_Package ev)) (ev_Test ev)] else [])
   \<and> lastErr r' = lastErr r \<and> EventHandler r' = EventHandler r"
  by (auto simp: Event_def ActionFail_def Let_def split: option.splits prod.splits if_splits)

lemma ScanTestOutput_ok:
  "ScanTestOutput addf evs serr r ex hs = (None, r', ex', hs') \<Longrightarrow>
   failures r' = failures r @ observed_failing addf ex evs
   \<and> ex' = scanned addf ex evs \<and> lastErr r' = lastErr r \<and> EventHandler r' = EventHandler r"
proof (induction evs arbitrary: r ex hs)
  case Nil
  then show ?case by (simp add: scanned_def)
next
  case (Cons ev evs)
  obtain e r1 hs1 where ev: "Event r ev (addf ev ex) hs = (e, r1, hs1)"
    by (cases "Event r ev (addf ev ex) hs") auto
  with Cons.prems have e: "e = None"
    by (cases e) (simp_all add: Let_def)
  with Cons.prems ev have "ScanTestOutput addf evs serr r1 (addf ev ex) hs1 = (None, r', ex', hs')"
    by (simp add: Let_def)
  from Cons.IH [OF this] Event_failures [OF ev] show ?case
    by (simp add: scanned_def)
qed

lemma collect_coverprofile_Inr:
  "collect_coverprofile p path profs st = Inr (ps, st') \<Longrightarrow>
   execution st' = execution st \<and> started st' = started st \<and> stdout st' = stdout st
   \<and> consumer st' = consumer st \<and> (\<forall>x. x \<noteq> path \<longrightarrow> fsys st' x = fsys st x)"
  by (auto simp: collect_coverprofile_def Remove_def ParseProfiles_def Let_def
        split: sum.splits option.splits prod.splits)

lemma collect_coverprofile_Inl:
  "collect_coverprofile p path profs st = Inl (err, st') \<Longrightarrow>
   execution st' = execution st \<and> started st' = started st \<and> stdout st' = stdout st
   \<and> consumer st' = consumer st \<and> (\<forall>x. x \<noteq> path \<longrightarrow> fsys st' x = fsys st x)"
  by (auto simp: collect_coverprofile_def Remove_def ParseProfiles_def Let_def
        split: sum.splits option.splits prod.splits)

lemma rerun_case_Inr:
  assumes "rerun_case E opts isCov main a i tc nextRec profs st = Inr (nextRec', profs', st')"
  shows "\<exists>cmdArgs p. started st' = started st @ [(a, i, cmdArgs)]
     \<and> startGoTestFn E a i cmdArgs = Inr p
     \<and> failures nextRec' = failures nextRec @ observed_failing (add E) (execution st) (events p)
     \<and> execution st' = scanned (add E) (execution st) (events p)
     \<and> lastErr nextRec' = (case waitErr p of None \<Rightarrow> lastErr nextRec | Some e \<Rightarrow> Some e)
     \<and> EventHandler nextRec' = EventHandler nextRec
     \<and> stdout st' = stdout st"
  using assms unfolding rerun_case_def Let_def
  by (auto split: sum.split_asm prod.split_asm option.split_asm if_split_asm
        dest!: ScanTestOutput_ok collect_coverprofile_Inr)


lemma temp_path_differs: "main @ CHR ''.'' # x \<noteq> main"
proof
  assume "main @ CHR ''.'' # x = main"
  then have "length (main @ CHR ''.'' # x) = length main"
    by simp
  then show False
    by simp
qed

text \<open>The state after one rerun is the state before it but for these fields.\<close>

lemma rerun_case_state:
  "\<exists>cmdArgs. started (state_of_round (rerun_case E opts isCov main a i tc nextRec profs st)) =
       started st @ [(a, i, cmdArgs)]
     \<and> stdout (state_of_round (rerun_case E opts isCov main a i tc nextRec profs st)) = stdout st
     \<and> fsys (state_of_round (rerun_case E opts isCov main a i tc nextRec profs st)) main = fsys st main"
proof -
  define path where "path = (if isCov then main @ ''.'' @ decimal a @ ''.'' @ decimal i else [])"
  define cmdArgs where "cmdArgs = goTestCmdArgs E opts
     (if isCov then withCoverprofile (newRerunOptsFromTestCase tc) path
      else newRerunOptsFromTestCase tc)"
  define st0 where "st0 = st\<lparr>started := started st @ [(a, i, cmdArgs)]\<rparr>"
  let ?res = "rerun_case E opts isCov main a i tc nextRec profs st"
  have goal: "started st' = started st @ [(a, i, cmdArgs)] \<and> stdout st' = stdout st
      \<and> fsys st' main = fsys st main" if "state_of_round ?res = st'"
    and "started st' = started st0" and "stdout st' = stdout st0" and "fsys st' main = fsys st0 main"
    for st'
    using that by (simp add: st0_def)
  have "started (state_of_round ?res) = started st0 \<and> stdout (state_of_round ?res) = stdout st0
      \<and> fsys (state_of_round ?res) main = fsys st0 main"
  proof (cases "startGoTestFn E a i cmdArgs")
    case (Inl err)
    then have "?res = Inl (err, st0)"
      by (cases isCov) (simp_all add: rerun_case_def Let_def cmdArgs_def st0_def path_def)
    then show ?thesis
      by (simp add: state_of_round_def)
  next
    case (Inr p)
    obtain serr r1 ex1 hs1 where scan:
      "ScanTestOutput (add E) (events p) (scanErr p) nextRec (execution st) (consumer st) =
         (serr, r1, ex1, hs1)"
      by (cases "ScanTestOutput (add E) (events p) (scanErr p) nextRec (execution st) (consumer st)")
        auto
    define st1 where "st1 = st0\<lparr>execution := ex1, consumer := hs1\<rparr>"
    show ?thesis
    proof (cases serr)
      case (Some err)
      with Inr scan have "?res = Inl (err, st1)"
        by (cases isCov) (simp_all add: rerun_case_def Let_def cmdArgs_def st0_def st1_def path_def)
      then show ?thesis
        by (simp add: state_of_round_def st1_def)
    next
      case None
      define cr where "cr = (if isCov then collect_coverprofile p path profs st1
                             else Inr (profs, st1))"
      have res: "?res = (case cr of
                      Inl e \<Rightarrow> Inl e
                    | Inr (ps, st2) \<Rightarrow>
                        (case hasErrors (waitErr p) (execution st2) of
                           Some err \<Rightarrow> Inl (err, st2)
                         | None \<Rightarrow>
                             Inr (if waitErr p \<noteq> None then r1\<lparr>lastErr := waitErr p\<rparr> else r1,
                                  ps, st2)))"
        using Inr scan None
        by (cases isCov; cases "waitErr p")
           (simp_all add: rerun_case_def Let_def cmdArgs_def st0_def st1_def path_def cr_def
              split: option.splits sum.splits)
      have pm: "isCov \<Longrightarrow> path \<noteq> main"
        by (simp add: path_def temp_path_differs)
      show ?thesis
      proof (cases cr)
        case (Inl e)
        obtain err st2 where e: "e = (err, st2)"
          by (cases e) auto
        have "started st2 = started st1 \<and> stdout st2 = stdout st1 \<and> fsys st2 main = fsys st1 main"
        proof (cases isCov)
          case True
          with Inl e have "collect_coverprofile p path profs st1 = Inl (err, st2)"
            by (simp add: cr_def)
          from collect_coverprofile_Inl [OF this] pm [OF True] show ?thesis
            by metis
        next
          case False
          with Inl show ?thesis
            by (simp add: cr_def)
        qed
        with res Inl e show ?thesis
          by (simp add: state_of_round_def st1_def)
      next
        case (Inr v)
        obtain ps st2 where v: "v = (ps, st2)"
          by (cases v) auto
        have "started st2 = started st1 \<and> stdout st2 = stdout st1 \<and> fsys st2 main = fsys st1 main"
        proof (cases isCov)
          case True
          with Inr v have "collect_coverprofile p path profs st1 = Inr (ps, st2)"
            by (simp add: cr_def)
          from collect_coverprofile_Inr [OF this] pm [OF True] show ?thesis
            by metis
        next
          case False
          with Inr v show ?thesis
            by (simp add: cr_def)
        qed
        with res Inr v show ?thesis
          by (cases "hasErrors (waitErr p) (execution st2)")
             (simp_all add: state_of_round_def st1_def)
      qed
    qed
  qed
  then show ?thesis
    by (intro exI [of _ cmdArgs]) (simp add: st0_def)
qed

lemma last_error_Cons:
  "last_error (x # xs) = (case last_error xs of None \<Rightarrow> x | Some e \<Rightarrow> Some e)"
proof (cases "filter (\<lambda>e. e \<noteq> None) xs")
  case Nil
  then show ?thesis
    by (cases x) (simp_all add: last_error_def)
next
  case (Cons y ys)
  then have "last (y # ys) \<in> set (filter (\<lambda>e. e \<noteq> None) xs)"
    by (metis last_in_set list.distinct(1))
  then obtain z where z: "last (y # ys) = Some z"
    by auto
  have "last_error xs = Some z"
    using Cons z by (simp add: last_error_def)
  moreover have "last_error (x # xs) = Some z"
    using Cons z by (cases x) (simp_all add: last_error_def)
  ultimately show ?thesis
    by simp
qed

lemma delivered_events_Cons:
  "startGoTestFn E a i cmdArgs = Inr p \<Longrightarrow>
   delivered_events E ((a, i, cmdArgs) # log) = events p @ delivered_events E log"
  by (simp add: delivered_events_def)

lemma exit_errors_Cons:
  "startGoTestFn E a i cmdArgs = Inr p \<Longrightarrow>
   exit_errors E ((a, i, cmdArgs) # log) = waitErr p # exit_errors E log"
  by (simp add: exit_errors_def)

lemma rerun_cases_Inr:
  assumes "rerun_cases E opts isCov main a i tcs nextRec profs st = Inr (nextRec', profs', st')"
  shows "\<exists>new. started st' = started st @ new \<and> (\<forall>e \<in> set new. fst e = a)
     \<and> length new = length tcs
     \<and> failures nextRec' =
         failures nextRec @ observed_failing (add E) (execution st) (delivered_events E new)
     \<and> execution st' = scanned (add E) (execution st) (delivered_events E new)
     \<and> lastErr nextRec' =
         (case last_error (exit_errors E new) of None \<Rightarrow> lastErr nextRec | Some e \<Rightarrow> Some e)
     \<and> EventHandler nextRec' = EventHandler nextRec
     \<and> stdout st' = stdout st"
  using assms
proof (induction tcs arbitrary: i nextRec profs st)
  case Nil
  then show ?case
    by (simp add: delivered_events_def exit_errors_def last_error_def scanned_def)
next
  case (Cons tc tcs)
  from Cons.prems obtain r1 p1 st1 where
    one: "rerun_case E opts isCov main a i tc nextRec profs st = Inr (r1, p1, st1)"
    and rest: "rerun_cases E opts isCov main a (i + 1) tcs r1 p1 st1 = Inr (nextRec', profs', st')"
    by (auto split: sum.splits)
  from rerun_case_Inr [OF one] obtain cmdArgs p where
    s1: "started st1 = started st @ [(a, i, cmdArgs)]"
    and sp: "startGoTestFn E a i cmdArgs = Inr p"
    and f1: "failures r1 = failures nextRec @ observed_failing (add E) (execution st) (events p)"
    and e1: "execution st1 = scanned (add E) (execution st) (events p)"
    and l1: "lastErr r1 = (case waitErr p of None \<Rightarrow> lastErr nextRec | Some e \<Rightarrow> Some e)"
    and h1: "EventHandler r1 = EventHandler nextRec"
    and o1: "stdout st1 = stdout st"
    by blast
  from Cons.IH [OF rest] obtain new where
    s2: "started st' = started st1 @ new"
    and a2: "\<forall>e \<in> set new. fst e = a"
    and n2: "length new = length tcs"
    and f2: "failures nextRec' =
         failures r1 @ observed_failing (add E) (execution st1) (delivered_events E new)"
    and e2: "execution st' = scanned (add E) (execution st1) (delivered_events E new)"
    and l2: "lastErr nextRec' =
         (case last_error (exit_errors E new) of None \<Rightarrow> lastErr r1 | Some e \<Rightarrow> Some e)"
    and h2: "EventHandler nextRec' = EventHandler r1"
    and o2: "stdout st' = stdout st1"
    by blast
  let ?new = "(a, i, cmdArgs) # new"
  have "started st' = started st @ ?new"
    using s1 s2 by simp
  moreover have "\<forall>e \<in> set ?new. fst e = a"
    using a2 by simp
  moreover have "length ?new = length (tc # tcs)"
    using n2 by simp
  moreover have "failures nextRec' =
         failures nextRec @ observed_failing (add E) (execution st) (delivered_events E ?new)"
    using f1 f2 e1 by (simp add: delivered_events_Cons [OF sp] observed_failing_append)
  moreover have "execution st' = scanned (add E) (execution st) (delivered_events E ?new)"
    using e1 e2 by (simp add: delivered_events_Cons [OF sp] scanned_append)
  moreover have "lastErr nextRec' =
         (case last_error (exit_errors E ?new) of None \<Rightarrow> lastErr nextRec | Some e \<Rightarrow> Some e)"
    using l1 l2 by (simp add: exit_errors_Cons [OF sp] last_error_Cons split: option.splits)
  moreover have "EventHandler nextRec' = EventHandler nextRec"
    using h1 h2 by simp
  moreover have "stdout st' = stdout st"
    using o1 o2 by simp
  ultimately show ?case
    by blast
qed

lemma rerun_cases_state:
  "\<exists>new. started (state_of_round (rerun_cases E opts isCov main a i tcs nextRec profs st)) =
       started st @ new
     \<and> (\<forall>e \<in> set new. fst e = a)
     \<and> stdout (state_of_round (rerun_cases E opts isCov main a i tcs nextRec profs st)) = stdout st
     \<and> fsys (state_of_round (rerun_cases E opts isCov main a i tcs nextRec profs st)) main = fsys st main"
proof (induction tcs arbitrary: i nextRec profs st)
  case Nil
  then show ?case by (simp add: state_of_round_def)
next
  case (Cons tc tcs)
  let ?one = "rerun_case E opts isCov main a i tc nextRec profs st"
  from rerun_case_state [of E opts isCov main a i tc nextRec profs st] obtain cmdArgs where
    s1: "started (state_of_round ?one) = started st @ [(a, i, cmdArgs)]"
    and o1: "stdout (state_of_round ?one) = stdout st"
    and m1: "fsys (state_of_round ?one) main = fsys st main"
    by blast
  show ?case
  proof (cases ?one)
    case (Inl e)
    then have "rerun_cases E opts isCov main a i (tc # tcs) nextRec profs st = ?one"
      by simp
    with s1 o1 m1 show ?thesis
      by (intro exI [of _ "[(a, i, cmdArgs)]"]) simp
  next
    case (Inr v)
    obtain r1 p1 st1 where v: "v = (r1, p1, st1)"
      by (cases v) auto
    let ?rest = "rerun_cases E opts isCov main a (i + 1) tcs r1 p1 st1"
    have whole: "rerun_cases E opts isCov main a i (tc # tcs) nextRec profs st = ?rest"
      using Inr v by simp
    have st1: "state_of_round ?one = st1"
      using Inr v by (simp add: state_of_round_def)
    from Cons.IH [of "i + 1" r1 p1 st1] obtain new where
      s2: "started (state_of_round ?rest) = started st1 @ new"
      and a2: "\<forall>e \<in> set new. fst e = a"
      and o2: "stdout (state_of_round ?rest) = stdout st1"
      and m2: "fsys (state_of_round ?rest) main = fsys st1 main"
      by blast
    show ?thesis
      unfolding whole using s1 o1 m1 s2 a2 o2 m2 st1
      by (intro exI [of _ "(a, i, cmdArgs) # new"]) simp
  qed
qed

subsection \<open>The outer loop\<close>

lemma count_zero: "count r > 0 \<longleftrightarrow> failures r \<noteq> []"
  by (simp add: count_def)

lemma rerun_loop_stop:
  assumes "\<not> (count rec > 0 \<and> int a < rerunFailsMaxAttempts opts)"
  shows "rerun_loop E opts tcFilter isCov main a rec profs st = Inr (a, rec, profs, st)"
  apply (subst rerun_loop.simps)
  apply (simp only: assms if_False)
  done

lemma rerun_loop_step:
  assumes "count rec > 0" and "int a < rerunFailsMaxAttempts opts"
  shows "rerun_loop E opts tcFilter isCov main a rec profs st =
     (case rerun_cases E opts isCov main a 0 (tcFilter (failures rec))
             (newFailureRecorder (Handler E)) profs
             (st\<lparr>stdout := stdout st @ [PrintSummary E (execution st), [CHR 0x0A]]\<rparr>) of
        Inl e \<Rightarrow> Inl e
      | Inr (nextRec, ps, st') \<Rightarrow> rerun_loop E opts tcFilter isCov main (a + 1) nextRec ps st')"
  apply (subst rerun_loop.simps)
  apply (simp only: assms simp_thms if_True Let_def)
  done

text \<open>What holds of every result of the loop, be it a fatal error or not.\<close>

lemma rerun_loop_state:
  "\<exists>new. started (state_of_loop (rerun_loop E opts tcFilter isCov main a rec profs st)) =
       started st @ new
     \<and> (\<forall>e \<in> set new. a \<le> fst e \<and> int (fst e) < rerunFailsMaxAttempts opts)
     \<and> length (stdout (state_of_loop (rerun_loop E opts tcFilter isCov main a rec profs st)))
          \<le> length (stdout st) + 2 * nat (rerunFailsMaxAttempts opts - int a)
     \<and> fsys (state_of_loop (rerun_loop E opts tcFilter isCov main a rec profs st)) main = fsys st main"
proof (induction E opts tcFilter isCov main a rec profs st rule: rerun_loop.induct)
  case (1 E opts tcFilter isCov main attempts rec rerunProfiles st)
  let ?loop = "rerun_loop E opts tcFilter isCov main attempts rec rerunProfiles st"
  show ?case
  proof (cases "count rec > 0 \<and> int attempts < rerunFailsMaxAttempts opts")
    case False
    then have "?loop = Inr (attempts, rec, rerunProfiles, st)"
      by (rule rerun_loop_stop)
    then show ?thesis
      by (simp add: state_of_loop_def)
  next
    case True
    define st0 where
      "st0 = st\<lparr>stdout := stdout st @ [PrintSummary E (execution st), [CHR 0x0A]]\<rparr>"
    define nextRec :: "'a failureRecorder" where "nextRec = newFailureRecorder (Handler E)"
    let ?round = "rerun_cases E opts isCov main attempts 0 (tcFilter (failures rec))
                    nextRec rerunProfiles st0"
    from rerun_cases_state [of E opts isCov main attempts 0 "tcFilter (failures rec)"
        nextRec rerunProfiles st0]
    obtain new1 where
      s1: "started (state_of_round ?round) = started st0 @ new1"
      and a1: "\<forall>e \<in> set new1. fst e = attempts"
      and o1: "stdout (state_of_round ?round) = stdout st0"
      and m1: "fsys (state_of_round ?round) main = fsys st0 main"
      by blast
    show ?thesis
    proof (cases ?round)
      case (Inl e)
      obtain err st1 where e: "e = (err, st1)"
        by (cases e) auto
      have "?loop = Inl (err, st1)"
        using True Inl e by (simp add: rerun_loop_step st0_def nextRec_def)
      moreover have "state_of_round ?round = st1"
        using Inl e by (simp add: state_of_round_def)
      ultimately show ?thesis
        using s1 a1 o1 m1 True
        by (intro exI [of _ new1]) (auto simp: state_of_loop_def st0_def)
    next
      case (Inr v)
      obtain r1 p1 st1 where v: "v = (r1, p1, st1)"
        by (cases v) auto
      let ?rest = "rerun_loop E opts tcFilter isCov main (attempts + 1) r1 p1 st1"
      have unfold: "?loop = ?rest"
        using True Inr v by (simp add: rerun_loop_step st0_def nextRec_def)
      have st1: "state_of_round ?round = st1"
        using Inr v by (simp add: state_of_round_def)
      have "\<exists>new. started (state_of_loop ?rest) = started st1 @ new
         \<and> (\<forall>e \<in> set new. attempts + 1 \<le> fst e \<and> int (fst e) < rerunFailsMaxAttempts opts)
         \<and> length (stdout (state_of_loop ?rest))
              \<le> length (stdout st1) + 2 * nat (rerunFailsMaxAttempts opts - int (attempts + 1))
         \<and> fsys (state_of_loop ?rest) main = fsys st1 main"
        using "1.IH" [OF True st0_def nextRec_def] Inr v
        by (simp add: st0_def nextRec_def)
      then obtain new2 where
        s2: "started (state_of_loop ?rest) = started st1 @ new2"
        and a2: "\<forall>e \<in> set new2. attempts + 1 \<le> fst e \<and> int (fst e) < rerunFailsMaxAttempts opts"
        and o2: "length (stdout (state_of_loop ?rest))
              \<le> length (stdout st1) + 2 * nat (rerunFailsMaxAttempts opts - int (attempts + 1))"
        and m2: "fsys (state_of_loop ?rest) main = fsys st1 main"
        by blast
      have len: "length (stdout st1) = length (stdout st) + 2"
        using o1 st1 by (simp add: st0_def)
      show ?thesis
        unfolding unfold using s1 a1 m1 s2 a2 o2 m2 st1 len True
        by (intro exI [of _ "new1 @ new2"]) (auto simp: st0_def)
    qed
  qed
qed


text \<open>What holds when the loop is left without a fatal error.\<close>

lemma rerun_loop_Inr:
  assumes "rerun_loop E opts tcFilter isCov main a rec profs st = Inr (n, rec', profs', st')"
  shows "a \<le> n \<and> (n = a \<longrightarrow> rec' = rec \<and> profs' = profs \<and> st' = st)
     \<and> (a < n \<longrightarrow> int n \<le> rerunFailsMaxAttempts opts)
     \<and> (failures rec' = [] \<or> rerunFailsMaxAttempts opts \<le> int n)
     \<and> length (stdout st') = length (stdout st) + 2 * (n - a)
     \<and> (\<exists>new. started st' = started st @ new \<and> (\<forall>e \<in> set new. a \<le> fst e \<and> fst e < n)
           \<and> (a < n \<longrightarrow>
                lastErr rec' = last_error (exit_errors E (filter (\<lambda>e. fst e + 1 = n) new))))"
  using assms
proof (induction E opts tcFilter isCov main a rec profs st rule: rerun_loop.induct)
  case (1 E opts tcFilter isCov main attempts rec rerunProfiles st)
  let ?loop = "rerun_loop E opts tcFilter isCov main attempts rec rerunProfiles st"
  show ?case
  proof (cases "count rec > 0 \<and> int attempts < rerunFailsMaxAttempts opts")
    case False
    then have "?loop = Inr (attempts, rec, rerunProfiles, st)"
      by (rule rerun_loop_stop)
    with "1.prems" have eq: "n = attempts" "rec' = rec" "profs' = rerunProfiles" "st' = st"
      by simp_all
    from False have "failures rec = [] \<or> rerunFailsMaxAttempts opts \<le> int attempts"
      by (auto simp: count_zero)
    with eq show ?thesis
      by simp
  next
    case True
    define st0 where
      "st0 = st\<lparr>stdout := stdout st @ [PrintSummary E (execution st), [CHR 0x0A]]\<rparr>"
    define nextRec :: "'a failureRecorder" where "nextRec = newFailureRecorder (Handler E)"
    let ?round = "rerun_cases E opts isCov main attempts 0 (tcFilter (failures rec))
                    nextRec rerunProfiles st0"
    have step: "?loop = (case ?round of Inl e \<Rightarrow> Inl e
                | Inr (r1, p1, st1) \<Rightarrow> rerun_loop E opts tcFilter isCov main (attempts + 1) r1 p1 st1)"
      using True by (simp add: rerun_loop_step st0_def nextRec_def)
    with "1.prems" obtain r1 p1 st1 where
      round: "?round = Inr (r1, p1, st1)"
      and rest: "rerun_loop E opts tcFilter isCov main (attempts + 1) r1 p1 st1 =
                   Inr (n, rec', profs', st')"
      by (auto split: sum.splits)
    from rerun_cases_Inr [OF round] obtain new1 where
      s1: "started st1 = started st0 @ new1"
      and a1: "\<forall>e \<in> set new1. fst e = attempts"
      and l1: "lastErr r1 = (case last_error (exit_errors E new1) of
                               None \<Rightarrow> lastErr nextRec | Some e \<Rightarrow> Some e)"
      and o1: "stdout st1 = stdout st0"
      by blast
    have l1': "lastErr r1 = last_error (exit_errors E new1)"
      using l1 by (simp add: nextRec_def newFailureRecorder_def split: option.splits)
    have IH: "attempts + 1 \<le> n \<and> (n = attempts + 1 \<longrightarrow> rec' = r1 \<and> profs' = p1 \<and> st' = st1)
       \<and> (attempts + 1 < n \<longrightarrow> int n \<le> rerunFailsMaxAttempts opts)
       \<and> (failures rec' = [] \<or> rerunFailsMaxAttempts opts \<le> int n)
       \<and> length (stdout st') = length (stdout st1) + 2 * (n - (attempts + 1))
       \<and> (\<exists>new. started st' = started st1 @ new
             \<and> (\<forall>e \<in> set new. attempts + 1 \<le> fst e \<and> fst e < n)
             \<and> (attempts + 1 < n \<longrightarrow>
                  lastErr rec' = last_error (exit_errors E (filter (\<lambda>e. fst e + 1 = n) new))))"
      by (rule "1.IH" [OF True st0_def nextRec_def round refl refl rest])
    then obtain new2 where
      le: "attempts + 1 \<le> n"
      and same: "n = attempts + 1 \<longrightarrow> rec' = r1 \<and> profs' = p1 \<and> st' = st1"
      and bound: "attempts + 1 < n \<longrightarrow> int n \<le> rerunFailsMaxAttempts opts"
      and exit: "failures rec' = [] \<or> rerunFailsMaxAttempts opts \<le> int n"
      and out: "length (stdout st') = length (stdout st1) + 2 * (n - (attempts + 1))"
      and s2: "started st' = started st1 @ new2"
      and a2: "\<forall>e \<in> set new2. attempts + 1 \<le> fst e \<and> fst e < n"
      and l2: "attempts + 1 < n \<longrightarrow>
                  lastErr rec' = last_error (exit_errors E (filter (\<lambda>e. fst e + 1 = n) new2))"
      by blast
    have f1: "filter (\<lambda>e. fst e + 1 = n) new1 = (if n = attempts + 1 then new1 else [])"
      using a1 by (auto simp: filter_empty_conv filter_id_conv)
    have last: "lastErr rec' = last_error (exit_errors E (filter (\<lambda>e. fst e + 1 = n) (new1 @ new2)))"
    proof (cases "n = attempts + 1")
      case True
      with same s2 have "new2 = []" and "rec' = r1"
        by simp_all
      with l1' f1 True show ?thesis
        by simp
    next
      case False
      with le l2 f1 show ?thesis
        by simp
    qed
    have "started st' = started st @ (new1 @ new2)"
      using s1 s2 by (simp add: st0_def)
    moreover have "\<forall>e \<in> set (new1 @ new2). attempts \<le> fst e \<and> fst e < n"
      using a1 a2 le by auto
    moreover have "length (stdout st') = length (stdout st) + 2 * (n - attempts)"
      using out o1 le by (simp add: st0_def)
    moreover have "int n \<le> rerunFailsMaxAttempts opts"
      using bound le True by (cases "n = attempts + 1") auto
    ultimately show ?thesis
      using le exit last by auto
  qed
qed

subsection \<open>The session\<close>

lemma started_since_append: "started st' = started st @ new \<Longrightarrow> started_since st st' = new"
  by (simp add: started_since_def)

lemma rerunFailed_loop_state:
  assumes "ParseCoverProfile E (args opts) = (isCov, main)"
  shows "started (snd (rerunFailed E opts st)) =
           started (state_of_loop (rerun_loop E opts (rerunFailsFilter (FilterFailedUnique E) opts)
              isCov main 0 (newFailureRecorderFromExecution (execution st)) [] st))
         \<and> stdout (snd (rerunFailed E opts st)) =
           stdout (state_of_loop (rerun_loop E opts (rerunFailsFilter (FilterFailedUnique E) opts)
              isCov main 0 (newFailureRecorderFromExecution (execution st)) [] st))"
  using assms
  by (simp add: rerunFailed_def state_of_loop_def Let_def split: sum.splits prod.splits)

text \<open>
  C6. Every process that a session starts belongs to a round whose index is below
  \<^verbatim>\<open>rerunFailsMaxAttempts\<close>, and the session prints at most that many summaries, one
  for each round. When the loop is left after \<open>n\<close> rounds without a fatal error, \<open>n\<close>
  is 0 or at most \<^verbatim>\<open>rerunFailsMaxAttempts\<close>, and the failing set is empty unless the
  attempts are used up; with an empty failing set the loop is left at once. In the
  session where \<open>TestA\<close> and \<open>TestB\<close> have failed, the first round reruns both and
  only \<open>TestB\<close> fails again, and the second round reruns \<open>TestB\<close>, which passes, with
  three attempts allowed two rounds are run, three processes are started and the
  error returned is nil.
\<close>

theorem rerun_loop_is_bounded:
  "(\<forall>e \<in> set (started_since st (snd (rerunFailed E opts st))).
       int (fst e) < rerunFailsMaxAttempts opts)
   \<and> length (stdout (snd (rerunFailed E opts st)))
        \<le> length (stdout st) + 2 * nat (rerunFailsMaxAttempts opts)
   \<and> (\<forall>n rec' profs' st'.
         rerun_loop E opts tcFilter isCov main 0 rec profs st = Inr (n, rec', profs', st') \<longrightarrow>
           (n = 0 \<or> int n \<le> rerunFailsMaxAttempts opts)
           \<and> (failures rec' = [] \<or> rerunFailsMaxAttempts opts \<le> int n)
           \<and> length (stdout st') = length (stdout st) + 2 * n)
   \<and> (failures rec = [] \<longrightarrow>
         rerun_loop E opts tcFilter isCov main a rec profs st = Inr (a, rec, profs, st))
   \<and> fst (rerunFailed two_round_Env (attempts_opts 3) two_round_State) = None
   \<and> stdout (snd (rerunFailed two_round_Env (attempts_opts 3) two_round_State)) =
        [''DONE'', [CHR 0x0A], ''DONE'', [CHR 0x0A]]
   \<and> started (snd (rerunFailed two_round_Env (attempts_opts 3) two_round_State)) =
        [(0, 0, [''-test.run=^TestA$'', ''pkg'']), (0, 1, [''-test.run=^TestB$'', ''pkg'']),
         (1, 0, [''-test.run=^TestB$'', ''pkg''])]"
proof -
  obtain c m where pcp: "ParseCoverProfile E (args opts) = (c, m)"
    by (cases "ParseCoverProfile E (args opts)")
  let ?L = "rerun_loop E opts (rerunFailsFilter (FilterFailedUnique E) opts) c m 0
              (newFailureRecorderFromExecution (execution st)) [] st"
  from rerun_loop_state [of E opts "rerunFailsFilter (FilterFailedUnique E) opts" c m 0
      "newFailureRecorderFromExecution (execution st)" "[]" st]
  obtain new where
    s: "started (state_of_loop ?L) = started st @ new"
    and b: "\<forall>e \<in> set new. 0 \<le> fst e \<and> int (fst e) < rerunFailsMaxAttempts opts"
    and o: "length (stdout (state_of_loop ?L))
              \<le> length (stdout st) + 2 * nat (rerunFailsMaxAttempts opts - int 0)"
    by blast
  have "started_since st (snd (rerunFailed E opts st)) = new"
    using rerunFailed_loop_state [OF pcp, of st] s by (simp add: started_since_append)
  with b have 1: "\<forall>e \<in> set (started_since st (snd (rerunFailed E opts st))).
       int (fst e) < rerunFailsMaxAttempts opts"
    by simp
  have 2: "length (stdout (snd (rerunFailed E opts st)))
        \<le> length (stdout st) + 2 * nat (rerunFailsMaxAttempts opts)"
    using rerunFailed_loop_state [OF pcp, of st] o by simp
  have 3: "\<forall>n rec' profs' st'.
         rerun_loop E opts tcFilter isCov main 0 rec profs st = Inr (n, rec', profs', st') \<longrightarrow>
           (n = 0 \<or> int n \<le> rerunFailsMaxAttempts opts)
           \<and> (failures rec' = [] \<or> rerunFailsMaxAttempts opts \<le> int n)
           \<and> length (stdout st') = length (stdout st) + 2 * n"
  proof (intro allI impI)
    fix n rec' profs' st'
    assume "rerun_loop E opts tcFilter isCov main 0 rec profs st = Inr (n, rec', profs', st')"
    from rerun_loop_Inr [OF this]
    show "(n = 0 \<or> int n \<le> rerunFailsMaxAttempts opts)
           \<and> (failures rec' = [] \<or> rerunFailsMaxAttempts opts \<le> int n)
           \<and> length (stdout st') = length (stdout st) + 2 * n"
      by auto
  qed
  have 4: "failures rec = [] \<longrightarrow>
         rerun_loop E opts tcFilter isCov main a rec profs st = Inr (a, rec, profs, st)"
    by (simp add: rerun_loop_stop count_zero)
  have 5: "fst (rerunFailed two_round_Env (attempts_opts 3) two_round_State) = None"
    by code_simp
  have 6: "stdout (snd (rerunFailed two_round_Env (attempts_opts 3) two_round_State)) =
        [''DONE'', [CHR 0x0A], ''DONE'', [CHR 0x0A]]"
    by code_simp
  have 7: "started (snd (rerunFailed two_round_Env (attempts_opts 3) two_round_State)) =
        [(0, 0, [''-test.run=^TestA$'', ''pkg'']), (0, 1, [''-test.run=^TestB$'', ''pkg'']),
         (1, 0, [''-test.run=^TestB$'', ''pkg''])]"
    by code_simp
  from 1 2 3 4 5 6 7 show ?thesis
    by blast
qed


theorem rerun_loop_is_bounded_witness:
  "(1, 0, [''-test.run=^TestB$'', ''pkg''])
     \<in> set (started_since two_round_State
              (snd (rerunFailed two_round_Env (attempts_opts 3) two_round_State)))
   \<and> int (fst (1::nat, 0::nat, [''-test.run=^TestB$'', ''pkg'']))
        < rerunFailsMaxAttempts (attempts_opts 3)
   \<and> fst (projr (rerun_loop two_round_Env (attempts_opts 3) remdups False [] 0
        (newFailureRecorderFromExecution (execution two_round_State)) [] two_round_State)) = 2
   \<and> failures (fst (snd (projr (rerun_loop two_round_Env (attempts_opts 3) remdups False [] 0
        (newFailureRecorderFromExecution (execution two_round_State)) [] two_round_State)))) = []
   \<and> length (stdout (snd (snd (snd (projr (rerun_loop two_round_Env (attempts_opts 3) remdups
        False [] 0 (newFailureRecorderFromExecution (execution two_round_State)) []
        two_round_State)))))) = 4
   \<and> rerun_loop two_round_Env (attempts_opts 3) remdups False [] 7
        (newFailureRecorder (Handler two_round_Env)) [] two_round_State
      = Inr (7, newFailureRecorder (Handler two_round_Env), [], two_round_State)"
proof -
  let ?rec0 = "newFailureRecorderFromExecution (execution two_round_State) :: nat failureRecorder"
  let ?L = "rerun_loop two_round_Env (attempts_opts 3) remdups False [] 0 ?rec0 [] two_round_State"
  let ?e = "(1::nat, 0::nat, [''-test.run=^TestB$'', ''pkg''])"
  note T = rerun_loop_is_bounded [where E = two_round_Env and opts = "attempts_opts 3"
      and st = two_round_State and tcFilter = remdups and isCov = False and main = "[]"
      and profs = "[]"]
  have mem: "?e \<in> set (started_since two_round_State
              (snd (rerunFailed two_round_Env (attempts_opts 3) two_round_State)))"
    by code_simp
  from T [of ?rec0 7] mem have 1: "int (fst ?e) < rerunFailsMaxAttempts (attempts_opts 3)"
    by blast
  have "\<not> isl ?L"
    by code_simp
  then have L: "?L = Inr (fst (projr ?L), fst (snd (projr ?L)), fst (snd (snd (projr ?L))),
                          snd (snd (snd (projr ?L))))"
    by (simp add: sum.expand)
  have n: "fst (projr ?L) = 2"
    by code_simp
  from T [of ?rec0 7] L have 2:
    "(failures (fst (snd (projr ?L))) = []
        \<or> rerunFailsMaxAttempts (attempts_opts 3) \<le> int (fst (projr ?L)))
     \<and> length (stdout (snd (snd (snd (projr ?L))))) =
         length (stdout two_round_State) + 2 * fst (projr ?L)"
    by blast
  have empty: "failures (newFailureRecorder (Handler two_round_Env)) = []"
    by (simp add: newFailureRecorder_def)
  from T [of "newFailureRecorder (Handler two_round_Env)" 7] empty
  have 3: "rerun_loop two_round_Env (attempts_opts 3) remdups False [] 7
        (newFailureRecorder (Handler two_round_Env)) [] two_round_State
      = Inr (7, newFailureRecorder (Handler two_round_Env), [], two_round_State)"
    by blast
  from mem 1 2 n 3 show ?thesis
    by (simp add: attempts_opts_def two_round_State_def)
qed

text \<open>
  C5. When the loop is left after \<open>n\<close> rounds without a fatal error and the merge of
  the coverage, if any, succeeds, \<^verbatim>\<open>rerunFailed\<close> returns the last error of the
  recorder of the final round: the last exit error that is not nil among the processes
  of round \<open>n - 1\<close>, and nil when they all exited cleanly or when no round was run.
  The processes of earlier rounds have no part in it.
\<close>

theorem rerunFailed_returns_last_round_error:
  assumes "ParseCoverProfile E (args opts) = (isCov, main)"
    and "rerun_loop E opts (rerunFailsFilter (FilterFailedUnique E) opts) isCov main 0
           (newFailureRecorderFromExecution (execution st)) [] st = Inr (n, rec', profs, st')"
    and "isCov \<longrightarrow> fsys st' main \<noteq> None"
  shows "fst (rerunFailed E opts st) = lastErr rec'
         \<and> fst (rerunFailed E opts st) =
             last_error (exit_errors E (filter (\<lambda>e. fst e + 1 = n) (started_since st st')))
         \<and> (n = 0 \<longrightarrow> fst (rerunFailed E opts st) = None)
         \<and> (\<forall>e \<in> set (started_since st st'). fst e < n)"
proof -
  have ret: "fst (rerunFailed E opts st) = lastErr rec'"
    using assms
    by (auto simp: rerunFailed_def Combine_def Let_def split: option.splits)
  from rerun_loop_Inr [OF assms(2)] obtain new where
    zero: "n = 0 \<longrightarrow> rec' = newFailureRecorderFromExecution (execution st)"
    and s: "started st' = started st @ new"
    and b: "\<forall>e \<in> set new. 0 \<le> fst e \<and> fst e < n"
    and l: "0 < n \<longrightarrow> lastErr rec' = last_error (exit_errors E (filter (\<lambda>e. fst e + 1 = n) new))"
    by blast
  have new: "started_since st st' = new"
    using s by (rule started_since_append)
  have none: "n = 0 \<longrightarrow> lastErr rec' = None"
    using zero by (simp add: newFailureRecorderFromExecution_def)
  have "lastErr rec' = last_error (exit_errors E (filter (\<lambda>e. fst e + 1 = n) new))"
  proof (cases "n = 0")
    case True
    with none show ?thesis
      by (simp add: exit_errors_def last_error_def)
  next
    case False
    with l show ?thesis
      by simp
  qed
  with ret new none b show ?thesis
    by simp
qed

theorem rerunFailed_returns_last_round_error_witness:
  "fst (rerunFailed two_round_Env (attempts_opts 1) two_round_State)
     = Some (ExitError 1 ''exit status 1'')
   \<and> fst (rerunFailed two_round_Env (attempts_opts 3) two_round_State) = None
   \<and> last_error (exit_errors two_round_Env (filter (\<lambda>e. fst e + 1 = 2)
        (started_since two_round_State
           (snd (snd (snd (projr (rerun_loop two_round_Env (attempts_opts 3)
              (rerunFailsFilter (FilterFailedUnique two_round_Env) (attempts_opts 3)) False [] 0
              (newFailureRecorderFromExecution (execution two_round_State)) []
              two_round_State)))))))) = None
   \<and> last_error (exit_errors two_round_Env (filter (\<lambda>e. fst e + 1 = 1)
        (started_since two_round_State
           (snd (snd (snd (projr (rerun_loop two_round_Env (attempts_opts 1)
              (rerunFailsFilter (FilterFailedUnique two_round_Env) (attempts_opts 1)) False [] 0
              (newFailureRecorderFromExecution (execution two_round_State)) []
              two_round_State)))))))) = Some (ExitError 1 ''exit status 1'')"
proof -
  let ?rec0 = "newFailureRecorderFromExecution (execution two_round_State) :: nat failureRecorder"
  let ?L = "\<lambda>k. rerun_loop two_round_Env (attempts_opts k)
              (rerunFailsFilter (FilterFailedUnique two_round_Env) (attempts_opts k)) False [] 0
              ?rec0 [] two_round_State"
  have pcp: "ParseCoverProfile two_round_Env (args (attempts_opts k)) = (False, [])" for k
    by (simp add: two_round_Env_def)
  have "\<not> isl (?L 1)"
    by code_simp
  then have L1: "?L 1 = Inr (fst (projr (?L 1)), fst (snd (projr (?L 1))),
                    fst (snd (snd (projr (?L 1)))), snd (snd (snd (projr (?L 1)))))"
    by (simp add: sum.expand)
  have "\<not> isl (?L 3)"
    by code_simp
  then have L3: "?L 3 = Inr (fst (projr (?L 3)), fst (snd (projr (?L 3))),
                    fst (snd (snd (projr (?L 3)))), snd (snd (snd (projr (?L 3)))))"
    by (simp add: sum.expand)
  have n1: "fst (projr (?L 1)) = 1" and n3: "fst (projr (?L 3)) = 2"
    by code_simp+
  note T1 = rerunFailed_returns_last_round_error [OF pcp L1]
  note T3 = rerunFailed_returns_last_round_error [OF pcp L3]
  have r1: "fst (rerunFailed two_round_Env (attempts_opts 1) two_round_State)
     = Some (ExitError 1 ''exit status 1'')"
    by code_simp
  have r3: "fst (rerunFailed two_round_Env (attempts_opts 3) two_round_State) = None"
    by code_simp
  have a1: "fst (rerunFailed two_round_Env (attempts_opts 1) two_round_State) =
      last_error (exit_errors two_round_Env (filter (\<lambda>e. fst e + 1 = 1)
        (started_since two_round_State (snd (snd (snd (projr (?L 1))))))))"
    using T1 unfolding n1 by blast
  have a3: "fst (rerunFailed two_round_Env (attempts_opts 3) two_round_State) =
      last_error (exit_errors two_round_Env (filter (\<lambda>e. fst e + 1 = 2)
        (started_since two_round_State (snd (snd (snd (projr (?L 3))))))))"
    using T3 unfolding n3 by blast
  show ?thesis
    by (simp only: a1 [symmetric] a3 [symmetric] r1 r3 simp_thms)
qed

lemma observed_failing_named:
  assumes "\<forall>ev ex. \<not> PackageEvent ev \<and> Action ev = ''fail'' \<longrightarrow>
             LastFailedByName (exec_Package (addf ev ex) (ev_Package ev)) (ev_Test ev) =
               \<lparr>Package = ev_Package ev, Test = ev_Test ev\<rparr>"
  shows "observed_failing addf ex evs =
           map (\<lambda>ev. \<lparr>Package = ev_Package ev, Test = ev_Test ev\<rparr>)
             (filter (\<lambda>ev. \<not> PackageEvent ev \<and> Action ev = ''fail'') evs)"
  using assms by (induction evs arbitrary: ex) auto

lemma simple_add_records_failure:
  assumes "\<not> PackageEvent ev" and "Action ev = ''fail''"
  shows "LastFailedByName (exec_Package (simple_add ev ex) (ev_Package ev)) (ev_Test ev) =
           \<lparr>Package = ev_Package ev, Test = ev_Test ev\<rparr>"
  using assms by (simp add: simple_add_def LastFailedByName_def Name_def Let_def)

text \<open>
  C1. When round \<open>a\<close> of the loop ends without a fatal error, the loop goes on as round
  \<open>a + 1\<close> with the recorder of round \<open>a\<close>, and the failures of that recorder are
  exactly the test cases that the fail events of the processes of round \<open>a\<close> name, in
  the order of the events: none is added and none is left out. When the execution
  records the failure of a test under the package and the name of its fail event, these
  are the package and the name of each fail event of the round.
\<close>

theorem next_round_failures_are_observed:
  assumes "count rec > 0" and "int a < rerunFailsMaxAttempts opts"
    and "rerun_cases E opts isCov main a 0 (tcFilter (failures rec))
           (newFailureRecorder (Handler E)) profs
           (st\<lparr>stdout := stdout st @ [PrintSummary E (execution st), [CHR 0x0A]]\<rparr>)
         = Inr (nextRec, profs', st')"
  shows "rerun_loop E opts tcFilter isCov main a rec profs st =
           rerun_loop E opts tcFilter isCov main (a + 1) nextRec profs' st'
         \<and> failures nextRec =
             observed_failing (add E) (execution st) (delivered_events E (started_since st st'))
         \<and> (\<forall>e \<in> set (started_since st st'). fst e = a)
         \<and> length (started_since st st') = length (tcFilter (failures rec))
         \<and> ((\<forall>ev ex. \<not> PackageEvent ev \<and> Action ev = ''fail'' \<longrightarrow>
                 LastFailedByName (exec_Package (add E ev ex) (ev_Package ev)) (ev_Test ev) =
                   \<lparr>Package = ev_Package ev, Test = ev_Test ev\<rparr>) \<longrightarrow>
              failures nextRec =
                map (\<lambda>ev. \<lparr>Package = ev_Package ev, Test = ev_Test ev\<rparr>)
                  (filter (\<lambda>ev. \<not> PackageEvent ev \<and> Action ev = ''fail'')
                     (delivered_events E (started_since st st'))))"
proof -
  let ?st0 = "st\<lparr>stdout := stdout st @ [PrintSummary E (execution st), [CHR 0x0A]]\<rparr>"
  have step: "rerun_loop E opts tcFilter isCov main a rec profs st =
           rerun_loop E opts tcFilter isCov main (a + 1) nextRec profs' st'"
    using assms by (simp add: rerun_loop_step)
  from rerun_cases_Inr [OF assms(3)] obtain new where
    s: "started st' = started ?st0 @ new"
    and b: "\<forall>e \<in> set new. fst e = a"
    and n: "length new = length (tcFilter (failures rec))"
    and f: "failures nextRec = failures (newFailureRecorder (Handler E)) @
              observed_failing (add E) (execution ?st0) (delivered_events E new)"
    by blast
  have new: "started_since st st' = new"
    using s by (simp add: started_since_def)
  have obs: "failures nextRec =
      observed_failing (add E) (execution st) (delivered_events E (started_since st st'))"
    using f unfolding new by (simp add: newFailureRecorder_def)
  have named: "(\<forall>ev ex. \<not> PackageEvent ev \<and> Action ev = ''fail'' \<longrightarrow>
                 LastFailedByName (exec_Package (add E ev ex) (ev_Package ev)) (ev_Test ev) =
                   \<lparr>Package = ev_Package ev, Test = ev_Test ev\<rparr>) \<longrightarrow>
              failures nextRec =
                map (\<lambda>ev. \<lparr>Package = ev_Package ev, Test = ev_Test ev\<rparr>)
                  (filter (\<lambda>ev. \<not> PackageEvent ev \<and> Action ev = ''fail'')
                     (delivered_events E (started_since st st')))"
    unfolding obs by (intro impI observed_failing_named)
  from step b n obs named show ?thesis
    unfolding new by simp
qed

theorem next_round_failures_are_observed_witness:
  "failures (fst (projr (rerun_cases two_round_Env (attempts_opts 3) False [] 0 0
       (remdups (failures (newFailureRecorderFromExecution (execution two_round_State)
                             :: nat failureRecorder)))
       (newFailureRecorder (Handler two_round_Env)) []
       (two_round_State\<lparr>stdout := stdout two_round_State @
           [PrintSummary two_round_Env (execution two_round_State), [CHR 0x0A]]\<rparr>)))) = [TestB]
   \<and> observed_failing (add two_round_Env) (execution two_round_State)
       (delivered_events two_round_Env (started_since two_round_State
          (snd (snd (projr (rerun_cases two_round_Env (attempts_opts 3) False [] 0 0
             (remdups (failures (newFailureRecorderFromExecution (execution two_round_State)
                                   :: nat failureRecorder)))
             (newFailureRecorder (Handler two_round_Env)) []
             (two_round_State\<lparr>stdout := stdout two_round_State @
                 [PrintSummary two_round_Env (execution two_round_State), [CHR 0x0A]]\<rparr>)))))))
     = [TestB]
   \<and> map (\<lambda>ev. \<lparr>Package = ev_Package ev, Test = ev_Test ev\<rparr>)
       (filter (\<lambda>ev. \<not> PackageEvent ev \<and> Action ev = ''fail'')
          (delivered_events two_round_Env (started_since two_round_State
             (snd (snd (projr (rerun_cases two_round_Env (attempts_opts 3) False [] 0 0
                (remdups (failures (newFailureRecorderFromExecution (execution two_round_State)
                                      :: nat failureRecorder)))
                (newFailureRecorder (Handler two_round_Env)) []
                (two_round_State\<lparr>stdout := stdout two_round_State @
                    [PrintSummary two_round_Env (execution two_round_State), [CHR 0x0A]]\<rparr>))))))))
     = [TestB]"
proof -
  let ?rec0 = "newFailureRecorderFromExecution (execution two_round_State) :: nat failureRecorder"
  let ?R = "rerun_cases two_round_Env (attempts_opts 3) False [] 0 0
       (remdups (failures ?rec0)) (newFailureRecorder (Handler two_round_Env)) []
       (two_round_State\<lparr>stdout := stdout two_round_State @
           [PrintSummary two_round_Env (execution two_round_State), [CHR 0x0A]]\<rparr>)"
  have c: "count ?rec0 > 0"
    by code_simp
  have m: "int 0 < rerunFailsMaxAttempts (attempts_opts 3)"
    by (simp add: attempts_opts_def)
  have "\<not> isl ?R"
    by code_simp
  then have R: "?R = Inr (fst (projr ?R), fst (snd (projr ?R)), snd (snd (projr ?R)))"
    by (simp add: sum.expand)
  note T = next_round_failures_are_observed [where tcFilter = remdups and rec = ?rec0
      and E = two_round_Env and a = 0 and opts = "attempts_opts 3" and st = two_round_State
      and isCov = False and main = "[]" and profs = "[]", OF c m R]
  have f: "failures (fst (projr ?R)) = [TestB]"
    by code_simp
  from T have "failures (fst (projr ?R)) =
      observed_failing (add two_round_Env) (execution two_round_State)
        (delivered_events two_round_Env (started_since two_round_State (snd (snd (projr ?R)))))"
    by blast
  moreover have rec: "\<forall>ev ex. \<not> PackageEvent ev \<and> Action ev = ''fail'' \<longrightarrow>
      LastFailedByName (exec_Package (add two_round_Env ev ex) (ev_Package ev)) (ev_Test ev) =
        \<lparr>Package = ev_Package ev, Test = ev_Test ev\<rparr>"
    by (simp add: two_round_Env_def simple_add_records_failure)
  from T rec have "failures (fst (projr ?R)) =
      map (\<lambda>ev. \<lparr>Package = ev_Package ev, Test = ev_Test ev\<rparr>)
        (filter (\<lambda>ev. \<not> PackageEvent ev \<and> Action ev = ''fail'')
           (delivered_events two_round_Env (started_since two_round_State (snd (snd (projr ?R))))))"
    by blast
  ultimately show ?thesis
    using f by (simp only: simp_thms)
qed

subsection \<open>Coverage and fatal errors\<close>

text \<open>
  C4. A failure to remove the file of a rerun should not lose the profile that has
  been parsed into memory; the source says as much (\<^verbatim>\<open>Even if there is errors, we
  still need to combine the coverprofile files\<close>, and the error text \<^verbatim>\<open>after
  combined with the main profile\<close>). The code does lose it: in the session where the
  removal fails, \<^verbatim>\<open>rerunFailed\<close> returns the error of the removal before it reaches
  \<^verbatim>\<open>coverprofile.Combine\<close>, and the main coverage file still holds the count 3 of
  the first run, not the count 8 that the merge with the profile of the rerun gives.
\<close>

theorem removal_failure_drops_coverage:
  "fst (rerunFailed (cover_Env (Some (Errorf ''permission denied''))) (attempts_opts 3) cover_State)
     = Some (Errorf (''failed to remove coverprofile cover.out.0.0 after combined with '' @
                     ''the main profile: permission denied''))
   \<and> fsys (snd (rerunFailed (cover_Env (Some (Errorf ''permission denied''))) (attempts_opts 3)
        cover_State)) ''cover.out'' = Some [[block_a 3]]
   \<and> merge_blocks (concat ([[block_a 3]] @ [[block_a 5]])) = [block_a 8]
   \<and> fsys (snd (rerunFailed (cover_Env (Some (Errorf ''permission denied''))) (attempts_opts 3)
        cover_State)) ''cover.out'' \<noteq> Some [[block_a 8]]
   \<and> fst (rerunFailed (cover_Env None) (attempts_opts 3) cover_State) = None
   \<and> fsys (snd (rerunFailed (cover_Env None) (attempts_opts 3) cover_State)) ''cover.out''
       = Some [[block_a 8]]"
  by code_simp

end
